theory Spec2Isabelle
  imports Main "HOL-Library.AList" "HOL-Library.Product_Lexorder" "HOL-Library.Multiset"
begin

section \<open>Data model and channel operations (models.py)\<close>

text \<open>
  A \<open>NoteEvent\<close> is a dataclass of six Python integers; a \<open>MidiProject\<close> holds the
  note list, two dictionaries and a set.  Python dictionaries keep insertion order and
  compare by content, so they are association lists here (\<open>AList.update\<close> overwrites an
  existing key in place and appends a new one, as an assignment \<open>d[k] = v\<close> does;
  \<open>AList.delete\<close> is \<open>d.pop(k, None)\<close>) and two dictionaries are equal in Python's sense
  when their \<open>map_of\<close> agree.  The notes of a project are separate objects, so the
  in-place updates of their fields are updates of the list elements.
\<close>

record NoteEvent =
  start_tick :: int
  end_tick :: int
  pitch :: int
  velocity :: int
  channel :: int
  track_index :: int

record MidiProject =
  ticks_per_beat :: int
  "notes" :: "NoteEvent list"
  channel_instrument_id :: "(int \<times> int) list"
  tempo_bpm :: int
  channel_track_name :: "(int \<times> string) list"
  muted_channels :: "int set"

definition duration :: "NoteEvent \<Rightarrow> int" where
  "duration n = max 0 (end_tick n - start_tick n)"

definition used_channels :: "MidiProject \<Rightarrow> int list" where
  "used_channels p = sort (remdups (map channel (notes p)))"

definition notes_for_channel :: "MidiProject \<Rightarrow> int \<Rightarrow> NoteEvent list" where
  "notes_for_channel p ch = filter (\<lambda>n. channel n = ch) (notes p)"

definition delete_channel :: "int \<Rightarrow> MidiProject \<Rightarrow> MidiProject" where
  "delete_channel ch p =
     p\<lparr>notes := filter (\<lambda>n. channel n \<noteq> ch) (notes p),
       channel_instrument_id := AList.delete ch (channel_instrument_id p),
       channel_track_name := AList.delete ch (channel_track_name p)\<rparr>"

definition merge_channel_into :: "int \<Rightarrow> int \<Rightarrow> MidiProject \<Rightarrow> MidiProject" where
  "merge_channel_into src dst p =
     (if src = dst then p
      else
        let ns = map (\<lambda>n. if channel n = src then n\<lparr>channel := dst\<rparr> else n) (notes p);
            ids = AList.delete src (channel_instrument_id p);
            names0 = channel_track_name p;
            names1 = (case map_of names0 src of
                        Some l \<Rightarrow> (if map_of names0 dst = None
                                   then AList.update dst l names0 else names0)
                      | None \<Rightarrow> names0);
            names2 = AList.delete src names1
        in p\<lparr>notes := ns, channel_instrument_id := ids, channel_track_name := names2\<rparr>)"

text \<open>
  The two halves of the exchange of one dictionary in \<open>swap_channels\<close>: both values are
  read first, then key \<open>b\<close> receives the old value of \<open>a\<close> (or is removed), then key
  \<open>a\<close> receives the old value of \<open>b\<close> (or is removed).
\<close>

definition swap_entries :: "int \<Rightarrow> int \<Rightarrow> (int \<times> 'v) list \<Rightarrow> (int \<times> 'v) list" where
  "swap_entries a b d =
     (let va = map_of d a;
          vb = map_of d b;
          d1 = (case va of None \<Rightarrow> AList.delete b d | Some x \<Rightarrow> AList.update b x d);
          d2 = (case vb of None \<Rightarrow> AList.delete a d1 | Some y \<Rightarrow> AList.update a y d1)
      in d2)"

definition swap_note :: "int \<Rightarrow> int \<Rightarrow> NoteEvent \<Rightarrow> NoteEvent" where
  "swap_note a b n =
     (if channel n = a then n\<lparr>channel := b\<rparr>
      else if channel n = b then n\<lparr>channel := a\<rparr>
      else n)"

definition swap_channels :: "int \<Rightarrow> int \<Rightarrow> MidiProject \<Rightarrow> MidiProject" where
  "swap_channels a b p =
     (if a = b then p
      else p\<lparr>notes := map (swap_note a b) (notes p),
             channel_instrument_id := swap_entries a b (channel_instrument_id p),
             channel_track_name := swap_entries a b (channel_track_name p)\<rparr>)"

section \<open>MIDI messages and files (objects of the mido library)\<close>

text \<open>
  The code reads and writes MIDI files through the mido library.  A message is its
  delta time (\<open>msg.time\<close>, in ticks since the previous message of the track) and its
  content; the constructors keep the attributes the code reads: the type, \<open>is_meta\<close>,
  \<open>channel\<close>, \<open>note\<close>, \<open>velocity\<close>, \<open>program\<close>, \<open>tempo\<close> and \<open>name\<close>.
  \<open>NoteOn\<close>, \<open>NoteOff\<close> and \<open>ProgramChange\<close> are channel messages (not meta),
  \<open>SetTempo\<close>, \<open>TrackName\<close> and \<open>EndOfTrack\<close> are meta messages;
  \<open>RealtimeMsg\<close> stands for the realtime messages (clock, start, continue, stop,
  active sensing), which are not meta and have no channel; \<open>OtherChannelMsg\<close> and
  \<open>OtherMsg\<close> stand for every other message, with or without a \<open>channel\<close>
  attribute.  A file is its time base and its tracks, as \<open>mido.MidiFile(path)\<close>
  reads them; what \<open>mid.save\<close> writes is modelled below as the file a later read
  returns.
\<close>

datatype msg_kind =
    NoteOn int int int
  | NoteOff int int int
  | ProgramChange int int
  | SetTempo int
  | TrackName string
  | EndOfTrack
  | OtherChannelMsg bool int
  | OtherMsg bool
  | RealtimeMsg

record message =
  time :: int
  kind :: msg_kind

record MidiFile =
  mf_ticks_per_beat :: int
  tracks :: "message list list"

datatype error = ValueError | ZeroDivisionError | StructError

fun is_meta :: "msg_kind \<Rightarrow> bool" where
  "is_meta (SetTempo _) = True"
| "is_meta (TrackName _) = True"
| "is_meta EndOfTrack = True"
| "is_meta (OtherChannelMsg m _) = m"
| "is_meta (OtherMsg m) = m"
| "is_meta _ = False"

fun is_realtime :: "msg_kind \<Rightarrow> bool" where
  "is_realtime RealtimeMsg = True"
| "is_realtime _ = False"

text \<open>\<open>getattr(msg, "channel", None)\<close>.\<close>

fun msg_channel :: "msg_kind \<Rightarrow> int option" where
  "msg_channel (NoteOn ch _ _) = Some ch"
| "msg_channel (NoteOff ch _ _) = Some ch"
| "msg_channel (ProgramChange ch _) = Some ch"
| "msg_channel (OtherChannelMsg _ ch) = Some ch"
| "msg_channel _ = None"

text \<open>
  Python's \<open>round\<close> of the quotient \<open>n / d\<close> (\<open>d \<noteq> 0\<close>): to the nearest integer, a tie
  to the even one.  \<open>mido.tempo2bpm\<close> and \<open>mido.bpm2tempo\<close> both divide 60000000 by
  their argument; the code rounds the first and the library rounds the second.
\<close>

definition round_half_even :: "int \<Rightarrow> int \<Rightarrow> int" where
  "round_half_even n d =
     (let n' = (if d < 0 then - n else n);
          d' = \<bar>d\<bar>;
          q = n' div d';
          r = n' mod d'
      in if 2 * r < d' then q
         else if d' < 2 * r then q + 1
         else if even q then q else q + 1)"

section \<open>Decoder (midi_io.py, load_midi_as_notes)\<close>

definition extract_tempo_bpm :: "MidiFile \<Rightarrow> error + int" where
  "extract_tempo_bpm mid =
     (case List.find (\<lambda>m. case kind m of SetTempo _ \<Rightarrow> True | _ \<Rightarrow> False)
             (concat (tracks mid)) of
        None \<Rightarrow> Inr 120
      | Some m \<Rightarrow>
          (case kind m of
             SetTempo t \<Rightarrow>
               if t = 0 then Inl ZeroDivisionError
               else Inr (max 30 (min 300 (round_half_even 60000000 t)))
           | _ \<Rightarrow> Inr 120))"

text \<open>
  \<open>str.strip()\<close> on a name that the library decoded as Latin-1: the white space
  characters of that range are removed at both ends.
\<close>

definition is_space :: "char \<Rightarrow> bool" where
  "is_space c =
     (let k = of_char c :: nat
      in (9 \<le> k \<and> k \<le> 13) \<or> (28 \<le> k \<and> k \<le> 32) \<or> k = 133 \<or> k = 160)"

definition strip :: "string \<Rightarrow> string" where
  "strip s = rev (dropWhile is_space (rev (dropWhile is_space s)))"

text \<open>
  One message of the scan of a track in \<open>_extract_channel_track_names\<close>; the state is
  the track name found so far and the channels seen (the set, as a list).
\<close>

definition track_name_step ::
  "string option \<times> int list \<Rightarrow> message \<Rightarrow> string option \<times> int list" where
  "track_name_step st msg =
     (case st of (track_name, chans) \<Rightarrow>
        (case kind msg of
           TrackName name \<Rightarrow>
             (if track_name = None
              then (let cleaned = strip name
                    in (if cleaned \<noteq> [] then Some cleaned else None, chans))
              else (track_name, chans))
         | k \<Rightarrow>
             (case msg_channel k of
                Some ch \<Rightarrow> (track_name, List.insert ch chans)
              | None \<Rightarrow> (track_name, chans))))"

definition setdefault :: "'k \<Rightarrow> 'v \<Rightarrow> ('k \<times> 'v) list \<Rightarrow> ('k \<times> 'v) list" where
  "setdefault k v d = (if map_of d k = None then d @ [(k, v)] else d)"

definition track_names_of_track ::
  "(int \<times> string) list \<Rightarrow> message list \<Rightarrow> (int \<times> string) list" where
  "track_names_of_track out tr =
     (case foldl track_name_step (None, []) tr of
        (Some name, chans) \<Rightarrow> foldl (\<lambda>d ch. setdefault ch name d) out (sort chans)
      | (None, _) \<Rightarrow> out)"

definition extract_channel_track_names :: "MidiFile \<Rightarrow> (int \<times> string) list" where
  "extract_channel_track_names mid = foldl track_names_of_track [] (tracks mid)"

text \<open>
  The note reconstruction.  \<open>active\<close> is the dictionary from \<open>(channel, pitch)\<close> to the
  list of pending \<open>(start_tick, velocity)\<close> entries; \<open>push_pending\<close> is
  \<open>active.setdefault(key, []).append(...)\<close> and \<open>pop_pending\<close> the branch of a
  note-off: it does nothing unless the key is present with a non-empty list, removes
  the first entry of that list otherwise and appends a note when the current tick is
  after the start.
\<close>

type_synonym active_map = "((int \<times> int) \<times> (int \<times> int) list) list"

definition push_pending :: "int \<times> int \<Rightarrow> int \<times> int \<Rightarrow> active_map \<Rightarrow> active_map" where
  "push_pending key e active =
     (case map_of active key of
        None \<Rightarrow> active @ [(key, [e])]
      | Some es \<Rightarrow> AList.update key (es @ [e]) active)"

definition pop_pending ::
  "int \<Rightarrow> int \<Rightarrow> int \<Rightarrow> int \<Rightarrow> active_map \<Rightarrow> NoteEvent list \<Rightarrow> active_map \<times> NoteEvent list" where
  "pop_pending t_idx abs_tick ch p active ns =
     (case map_of active (ch, p) of
        Some ((start, vel) # rest) \<Rightarrow>
          (AList.update (ch, p) rest active,
           if start < abs_tick
           then ns @ [\<lparr>start_tick = start, end_tick = abs_tick, pitch = p,
                       velocity = vel, channel = ch, track_index = t_idx\<rparr>]
           else ns)
      | _ \<Rightarrow> (active, ns))"

definition decode_msg ::
  "int \<Rightarrow> int \<times> active_map \<times> NoteEvent list \<Rightarrow> message
     \<Rightarrow> int \<times> active_map \<times> NoteEvent list" where
  "decode_msg t_idx st msg =
     (case st of (abs_tick0, active, ns) \<Rightarrow>
        (let abs_tick = abs_tick0 + time msg
         in case kind msg of
              NoteOn ch p vel \<Rightarrow>
                (if 0 < vel then (abs_tick, push_pending (ch, p) (abs_tick, vel) active, ns)
                 else if vel = 0
                 then (case pop_pending t_idx abs_tick ch p active ns of
                         (active', ns') \<Rightarrow> (abs_tick, active', ns'))
                 else (abs_tick, active, ns))
            | NoteOff ch p vel \<Rightarrow>
                (case pop_pending t_idx abs_tick ch p active ns of
                   (active', ns') \<Rightarrow> (abs_tick, active', ns'))
            | _ \<Rightarrow> (abs_tick, active, ns)))"

text \<open>The loop that closes the notes still pending at the end of a track.\<close>

definition close_stuck :: "int \<Rightarrow> int \<Rightarrow> active_map \<Rightarrow> NoteEvent list" where
  "close_stuck t_idx abs_tick active =
     concat (map (\<lambda>((ch, p), stack).
                    map (\<lambda>(start, vel).
                           \<lparr>start_tick = start, end_tick = max (start + 1) abs_tick,
                            pitch = p, velocity = vel, channel = ch,
                            track_index = t_idx\<rparr>) stack) active)"

text \<open>One track: the notes found so far come in, the notes with this track's come out.\<close>

definition decode_track :: "NoteEvent list \<Rightarrow> nat \<times> message list \<Rightarrow> NoteEvent list" where
  "decode_track ns it =
     (case it of (t_idx, track) \<Rightarrow>
        (case foldl (decode_msg (int t_idx)) (0, [], ns) track of
           (abs_tick, active, ns') \<Rightarrow> ns' @ close_stuck (int t_idx) abs_tick active))"

definition load_midi_as_notes :: "MidiFile \<Rightarrow> error + MidiProject" where
  "load_midi_as_notes mid =
     (case extract_tempo_bpm mid of
        Inl e \<Rightarrow> Inl e
      | Inr bpm \<Rightarrow>
          Inr \<lparr>ticks_per_beat = mf_ticks_per_beat mid,
               notes = foldl decode_track [] (List.enumerate 0 (tracks mid)),
               channel_instrument_id = [],
               tempo_bpm = bpm,
               channel_track_name = extract_channel_track_names mid,
               muted_channels = {}\<rparr>)"

section \<open>Message constructors of the library\<close>

text \<open>
  \<open>mido.Message\<close> and \<open>mido.MetaMessage\<close> check their arguments and raise
  \<open>ValueError\<close>: a channel is in 0..15, a note, a velocity and a program are in
  0..127, a tempo is in 0..16777215.  \<open>mido.bpm2tempo(bpm)\<close> is 60000000 / bpm
  rounded, and raises \<open>ZeroDivisionError\<close> at 0.
\<close>

definition data_byte :: "int \<Rightarrow> bool" where
  "data_byte x = (0 \<le> x \<and> x \<le> 127)"

definition valid_channel :: "int \<Rightarrow> bool" where
  "valid_channel ch = (0 \<le> ch \<and> ch \<le> 15)"

definition mk_note_on :: "int \<Rightarrow> int \<Rightarrow> int \<Rightarrow> error + msg_kind" where
  "mk_note_on ch note vel =
     (if valid_channel ch \<and> data_byte note \<and> data_byte vel then Inr (NoteOn ch note vel)
      else Inl ValueError)"

definition mk_note_off :: "int \<Rightarrow> int \<Rightarrow> int \<Rightarrow> error + msg_kind" where
  "mk_note_off ch note vel =
     (if valid_channel ch \<and> data_byte note \<and> data_byte vel then Inr (NoteOff ch note vel)
      else Inl ValueError)"

definition mk_program_change :: "int \<Rightarrow> int \<Rightarrow> error + msg_kind" where
  "mk_program_change ch program =
     (if valid_channel ch \<and> data_byte program then Inr (ProgramChange ch program)
      else Inl ValueError)"

definition mk_set_tempo :: "int \<Rightarrow> error + msg_kind" where
  "mk_set_tempo tempo =
     (if 0 \<le> tempo \<and> tempo \<le> 16777215 then Inr (SetTempo tempo) else Inl ValueError)"

definition bpm2tempo :: "int \<Rightarrow> error + int" where
  "bpm2tempo bpm = (if bpm = 0 then Inl ZeroDivisionError else Inr (round_half_even 60000000 bpm))"

section \<open>Writing a file (mid.save of the library)\<close>

text \<open>
  \<open>mid.save\<close> packs the header with \<open>struct.pack('>hhh', type, len(tracks),
  ticks_per_beat)\<close>, which raises \<open>struct.error\<close> outside the signed 16-bit range, and
  writes every track through \<open>fix_end_of_track\<close>: each \<open>end_of_track\<close> message is
  removed, its delta time is added to the next message that is kept, and one
  \<open>end_of_track\<close> carrying the time that is left is put at the end.  A message with a
  negative delta time and a realtime message raise \<open>ValueError\<close>.  The result is the file as a later
  \<open>mido.MidiFile(path)\<close> reads it.  Errors of the file system are not modelled.
\<close>

definition int16 :: "int \<Rightarrow> bool" where
  "int16 x = (- 32768 \<le> x \<and> x \<le> 32767)"

fun fix_end_of_track :: "int \<Rightarrow> message list \<Rightarrow> message list" where
  "fix_end_of_track accum [] = [\<lparr>time = accum, kind = EndOfTrack\<rparr>]"
| "fix_end_of_track accum (msg # msgs) =
     (if kind msg = EndOfTrack then fix_end_of_track (accum + time msg) msgs
      else if accum \<noteq> 0 then msg\<lparr>time := accum + time msg\<rparr> # fix_end_of_track 0 msgs
      else msg # fix_end_of_track 0 msgs)"

definition write_track :: "message list \<Rightarrow> error + message list" where
  "write_track track =
     (let msgs = fix_end_of_track 0 track
      in if list_ex (\<lambda>msg. time msg < 0 \<or> is_realtime (kind msg)) msgs
         then Inl ValueError else Inr msgs)"

fun write_tracks :: "message list list \<Rightarrow> error + message list list" where
  "write_tracks [] = Inr []"
| "write_tracks (t # ts) =
     (case write_track t of
        Inl e \<Rightarrow> Inl e
      | Inr t' \<Rightarrow>
          (case write_tracks ts of
             Inl e \<Rightarrow> Inl e
           | Inr ts' \<Rightarrow> Inr (t' # ts')))"

definition midi_save :: "MidiFile \<Rightarrow> error + MidiFile" where
  "midi_save mid =
     (if \<not> int16 (int (length (tracks mid))) \<or> \<not> int16 (mf_ticks_per_beat mid)
      then Inl StructError
      else (case write_tracks (tracks mid) of
              Inl e \<Rightarrow> Inl e
            | Inr ts \<Rightarrow> Inr (mid\<lparr>tracks := ts\<rparr>)))"


section \<open>Encoder (midi_io.py, save_project_to_midi)\<close>

text \<open>
  The two warnings of the encoder: \<open>ChannelsOver9 over\<close> is the text
  "Channels over 9 present: [...]. Exportable channels are 0-9." with the sorted list
  of the offending channels, \<open>DroppedOver9\<close> the text "Dropped notes on channels > 9
  during export."
\<close>

datatype warning = ChannelsOver9 "int list" | DroppedOver9

text \<open>The channel filter: the warnings and the notes that go on.\<close>

definition export_filter :: "NoteEvent list \<Rightarrow> bool \<Rightarrow> bool \<Rightarrow> warning list \<times> NoteEvent list" where
  "export_filter ns normalize_to_channels_0_9 drop_channels_over_9 =
     (if normalize_to_channels_0_9
      then (let over = sort (remdups (filter (\<lambda>c. 9 < c) (map channel ns)))
            in if over \<noteq> []
               then (if drop_channels_over_9
                     then ([ChannelsOver9 over, DroppedOver9], filter (\<lambda>n. channel n \<le> 9) ns)
                     else ([ChannelsOver9 over], ns))
               else ([], ns))
      else ([], ns))"

definition tempo_messages :: "int \<Rightarrow> bool \<Rightarrow> error + message list" where
  "tempo_messages bpm0 write_tempo =
     (if write_tempo
      then (case bpm2tempo (max 30 (min 300 bpm0)) of
              Inl e \<Rightarrow> Inl e
            | Inr tempo \<Rightarrow>
                (case mk_set_tempo tempo of
                   Inl e \<Rightarrow> Inl e
                 | Inr k \<Rightarrow> Inr [\<lparr>time = 0, kind = k\<rparr>]))
      else Inr [])"

text \<open>The absolute-time events: program changes at tick 0, then two events per note.\<close>

fun program_events :: "bool \<Rightarrow> (int \<times> int) list \<Rightarrow> error + (int \<times> msg_kind) list" where
  "program_events normalize_0_9 [] = Inr []"
| "program_events normalize_0_9 ((ch, program) # rest) =
     (if normalize_0_9 \<and> 9 < ch then program_events normalize_0_9 rest
      else (case mk_program_change ch program of
              Inl e \<Rightarrow> Inl e
            | Inr k \<Rightarrow>
                (case program_events normalize_0_9 rest of
                   Inl e \<Rightarrow> Inl e
                 | Inr evs \<Rightarrow> Inr ((0, k) # evs))))"

fun note_events :: "NoteEvent list \<Rightarrow> error + (int \<times> msg_kind) list" where
  "note_events [] = Inr []"
| "note_events (n # ns) =
     (case mk_note_on (channel n) (pitch n) (velocity n) of
        Inl e \<Rightarrow> Inl e
      | Inr on \<Rightarrow>
          (case mk_note_off (channel n) (pitch n) 0 of
             Inl e \<Rightarrow> Inl e
           | Inr off \<Rightarrow>
               (case note_events ns of
                  Inl e \<Rightarrow> Inl e
                | Inr evs \<Rightarrow> Inr ((start_tick n, on) # (end_tick n, off) # evs))))"

text \<open>The local function \<open>sort_key\<close>, the key of the stable sort of the events.\<close>

definition event_sort_key :: "int \<times> msg_kind \<Rightarrow> int \<times> int" where
  "event_sort_key item =
     (case item of (tick, k) \<Rightarrow>
        (tick, case k of NoteOff _ _ _ \<Rightarrow> - 1 | _ \<Rightarrow> 0))"

text \<open>Absolute ticks to delta times; the first argument is \<open>last_tick\<close>.\<close>

fun to_deltas :: "int \<Rightarrow> (int \<times> msg_kind) list \<Rightarrow> message list" where
  "to_deltas last_tick [] = []"
| "to_deltas last_tick ((tick, k) # evs) =
     \<lparr>time = max 0 (tick - last_tick), kind = k\<rparr> # to_deltas tick evs"

definition save_project_to_midi ::
  "MidiProject \<Rightarrow> bool \<Rightarrow> bool \<Rightarrow> bool \<Rightarrow> bool \<Rightarrow> error + (warning list \<times> MidiFile)" where
  "save_project_to_midi project normalize_to_channels_0_9 drop_channels_over_9
       force_programs_at_start write_tempo =
     (case export_filter (notes project) normalize_to_channels_0_9 drop_channels_over_9 of
        (warnings, ns) \<Rightarrow>
          (case tempo_messages (tempo_bpm project) write_tempo of
             Inl e \<Rightarrow> Inl e
           | Inr tempo_msgs \<Rightarrow>
               (case (if force_programs_at_start
                      then program_events normalize_to_channels_0_9
                             (sort (channel_instrument_id project))
                      else Inr []) of
                  Inl e \<Rightarrow> Inl e
                | Inr pcs \<Rightarrow>
                    (case note_events ns of
                       Inl e \<Rightarrow> Inl e
                     | Inr nevs \<Rightarrow>
                         (case midi_save
                                 \<lparr>mf_ticks_per_beat = ticks_per_beat project,
                                  tracks =
                                    [tempo_msgs
                                     @ to_deltas 0 (sort_key event_sort_key (pcs @ nevs))
                                     @ [\<lparr>time = 0, kind = EndOfTrack\<rparr>]]\<rparr> of
                            Inl e \<Rightarrow> Inl e
                          | Inr written \<Rightarrow> Inr (warnings, written))))))"

text \<open>
  The absolute tick of every message of a track, from its delta times, and the track
  as the list of its messages' absolute ticks and contents.
\<close>

fun abs_ticks :: "int \<Rightarrow> message list \<Rightarrow> int list" where
  "abs_ticks t [] = []"
| "abs_ticks t (m # ms) = (t + time m) # abs_ticks (t + time m) ms"

definition timeline :: "message list \<Rightarrow> (int \<times> msg_kind) list" where
  "timeline track = zip (abs_ticks 0 track) (map kind track)"

fun is_note_on :: "msg_kind \<Rightarrow> bool" where
  "is_note_on (NoteOn _ _ _) = True"
| "is_note_on _ = False"

fun is_note_off :: "msg_kind \<Rightarrow> bool" where
  "is_note_off (NoteOff _ _ _) = True"
| "is_note_off _ = False"

text \<open>
  The projects and flags for which the encoder returns: the time base fits the
  header, every note that is written fits its messages, and with
  \<open>force_programs_at_start\<close> so does every entry of \<open>channel_instrument_id\<close> that is
  not skipped.
\<close>

definition valid_note :: "NoteEvent \<Rightarrow> bool" where
  "valid_note n = (valid_channel (channel n) \<and> data_byte (pitch n) \<and> data_byte (velocity n))"

definition encodable :: "MidiProject \<Rightarrow> bool \<Rightarrow> bool \<Rightarrow> bool \<Rightarrow> bool" where
  "encodable p normalize_to_channels_0_9 drop_channels_over_9 force_programs_at_start =
     (int16 (ticks_per_beat p) \<and>
      list_all valid_note
        (snd (export_filter (notes p) normalize_to_channels_0_9 drop_channels_over_9)) \<and>
      (if force_programs_at_start
       then list_all (\<lambda>(ch, program). (normalize_to_channels_0_9 \<and> 9 < ch) \<or>
                                        (valid_channel ch \<and> data_byte program))
                     (channel_instrument_id p)
       else True))"

text \<open>
  The two events the encoder builds for each note, for the notes of a list in order,
  and the contents that are note messages.
\<close>

definition note_pairs :: "NoteEvent list \<Rightarrow> (int \<times> msg_kind) list" where
  "note_pairs ns =
     concat (map (\<lambda>n. [(start_tick n, NoteOn (channel n) (pitch n) (velocity n)),
                         (end_tick n, NoteOff (channel n) (pitch n) 0)]) ns)"

definition is_note :: "msg_kind \<Rightarrow> bool" where
  "is_note k = (is_note_on k \<or> is_note_off k)"

section \<open>Initialization events (midi_init_injector.py)\<close>

definition has_meta_set_tempo_at_0 :: "message list \<Rightarrow> bool" where
  "has_meta_set_tempo_at_0 track =
     list_ex (\<lambda>msg. time msg = 0 \<and> is_meta (kind msg) \<and>
                     (case kind msg of SetTempo _ \<Rightarrow> True | _ \<Rightarrow> False)) track"

definition has_program_change_at_0 :: "message list \<Rightarrow> int \<Rightarrow> bool" where
  "has_program_change_at_0 track ch =
     list_ex (\<lambda>msg. time msg = 0 \<and> \<not> is_meta (kind msg) \<and>
                     (case kind msg of ProgramChange c _ \<Rightarrow> c = ch | _ \<Rightarrow> False)) track"

text \<open>
  The three groups of \<open>inserts\<close>, in the order the code appends them; \<open>bpm\<close> is
  the argument \<open>tempo_bpm\<close>.
\<close>

definition tempo_insert :: "message list \<Rightarrow> int \<Rightarrow> error + message list" where
  "tempo_insert t0 bpm =
     (if has_meta_set_tempo_at_0 t0 then Inr []
      else (case bpm2tempo bpm of
              Inl e \<Rightarrow> Inl e
            | Inr tempo \<Rightarrow>
                (case mk_set_tempo tempo of
                   Inl e \<Rightarrow> Inl e
                 | Inr k \<Rightarrow> Inr [\<lparr>time = 0, kind = k\<rparr>])))"

fun melodic_inserts :: "message list \<Rightarrow> int \<Rightarrow> int list \<Rightarrow> error + message list" where
  "melodic_inserts t0 program_base [] = Inr []"
| "melodic_inserts t0 program_base (ch # chs) =
     (if has_program_change_at_0 t0 ch then melodic_inserts t0 program_base chs
      else (case mk_program_change ch (program_base + ch) of
              Inl e \<Rightarrow> Inl e
            | Inr k \<Rightarrow>
                (case melodic_inserts t0 program_base chs of
                   Inl e \<Rightarrow> Inl e
                 | Inr ms \<Rightarrow> Inr (\<lparr>time = 0, kind = k\<rparr> # ms))))"

definition drum_insert :: "message list \<Rightarrow> int option \<Rightarrow> message list" where
  "drum_insert t0 drum_midi_channel =
     (case drum_midi_channel of
        None \<Rightarrow> []
      | Some drum_ch \<Rightarrow>
          if 0 \<le> drum_ch \<and> drum_ch \<le> 15 \<and> \<not> has_program_change_at_0 t0 drum_ch
          then [\<lparr>time = 0, kind = ProgramChange drum_ch 0\<rparr>]
          else [])"

definition init_inserts ::
  "message list \<Rightarrow> int \<Rightarrow> int \<Rightarrow> int \<Rightarrow> int option \<Rightarrow> error + message list" where
  "init_inserts t0 bpm program_base max_melodic_channels drum_midi_channel =
     (case tempo_insert t0 bpm of
        Inl e \<Rightarrow> Inl e
      | Inr ts \<Rightarrow>
          (case melodic_inserts t0 program_base [0 .. max_melodic_channels - 1] of
             Inl e \<Rightarrow> Inl e
           | Inr ms \<Rightarrow> Inr (ts @ ms @ drum_insert t0 drum_midi_channel)))"

text \<open>The first track, after an empty track was added to a file that has none.\<close>

definition first_track :: "MidiFile \<Rightarrow> message list" where
  "first_track mid = (case tracks mid of [] \<Rightarrow> [] | t0 # _ \<Rightarrow> t0)"

definition inject_init_events ::
  "MidiFile \<Rightarrow> int \<Rightarrow> int \<Rightarrow> int \<Rightarrow> int option \<Rightarrow> error + MidiFile" where
  "inject_init_events mid bpm program_base max_melodic_channels drum_midi_channel =
     (let t0 = first_track mid;
          others = (case tracks mid of [] \<Rightarrow> [] | _ # ts \<Rightarrow> ts)
      in case init_inserts t0 bpm program_base max_melodic_channels drum_midi_channel of
           Inl e \<Rightarrow> Inl e
         | Inr inserts \<Rightarrow> midi_save (mid\<lparr>tracks := (inserts @ t0) # others\<rparr>))"





section \<open>Drum remapping (drum_remap.py)\<close>

text \<open>
  The target drumset is the dictionary \<open>midi_note \<rightarrow> DrumDef\<close> that
  \<open>load_rs_drums_json\<close> builds (config.py): integer keys, a name that is always a
  string and a category that may be \<open>None\<close>.  The record keeps the fields the
  remapper reads.  Strings are lists of 8-bit characters, so a name is modelled when
  its code points are below 256.
\<close>

record DrumDef =
  midi_note :: int
  name :: string
  category :: "string option"

definition GM_NOTE_TO_CATEGORY :: "(int \<times> string) list" where
  "GM_NOTE_TO_CATEGORY =
     [(35, ''kick''), (36, ''kick''), (38, ''snare''), (40, ''snare''), (39, ''clap''),
      (42, ''hihat''), (46, ''hihat''), (49, ''crash''), (55, ''crash''), (57, ''crash'')]"

text \<open>\<open>str.lower()\<close> on code points below 256.\<close>

definition lower_char :: "char \<Rightarrow> char" where
  "lower_char c =
     (let k = of_char c :: nat
      in if (65 \<le> k \<and> k \<le> 90) \<or> (192 \<le> k \<and> k \<le> 222 \<and> k \<noteq> 215)
         then char_of (k + 32) else c)"

definition is_alnum :: "char \<Rightarrow> bool" where
  "is_alnum c =
     (let k = of_char c :: nat in (97 \<le> k \<and> k \<le> 122) \<or> (48 \<le> k \<and> k \<le> 57))"

text \<open>
  \<open>re.sub(r"\([^)]*\)", "", s)\<close>: an opening parenthesis that has a closing one
  after it is removed together with everything up to the first closing one.
\<close>

function del_parens :: "string \<Rightarrow> string" where
  "del_parens [] = []"
| "del_parens (c # cs) =
     (if c = CHR ''('' \<and> CHR '')'' \<in> set cs
      then del_parens (tl (dropWhile (\<lambda>x. x \<noteq> CHR '')'') cs))
      else c # del_parens cs)"
  by pat_completeness auto
termination
proof (relation "measure length")
  show "wf (measure length)" by simp
next
  fix c :: char and cs :: string
  have "length (tl (dropWhile (\<lambda>x. x \<noteq> CHR '')'') cs)) \<le> length cs"
    using length_dropWhile_le [of "\<lambda>x. x \<noteq> CHR '')''" cs] by simp
  then show "(tl (dropWhile (\<lambda>x. x \<noteq> CHR '')'') cs), c # cs) \<in> measure length"
    by simp
next
  fix c :: char and cs :: string
  show "(cs, c # cs) \<in> measure length" by simp
qed

text \<open>\<open>re.sub(r"[^a-z0-9]+", " ", s)\<close>: every run of other characters becomes one space.\<close>

function sub_non_alnum :: "string \<Rightarrow> string" where
  "sub_non_alnum [] = []"
| "sub_non_alnum (c # cs) =
     (if is_alnum c then c # sub_non_alnum cs
      else CHR '' '' # sub_non_alnum (dropWhile (\<lambda>x. \<not> is_alnum x) cs))"
  by pat_completeness auto
termination
proof (relation "measure length")
  show "wf (measure length)" by simp
next
  fix c :: char and cs :: string
  show "(cs, c # cs) \<in> measure length" by simp
next
  fix c :: char and cs :: string
  show "(dropWhile (\<lambda>x. \<not> is_alnum x) cs, c # cs) \<in> measure length"
    using length_dropWhile_le [of "\<lambda>x. \<not> is_alnum x" cs] by simp
qed

text \<open>\<open>s.split()\<close> (the second argument is the word being read) and \<open>" ".join\<close>.\<close>

fun split_ws :: "string \<Rightarrow> string \<Rightarrow> string list" where
  "split_ws cur [] = (if cur = [] then [] else [cur])"
| "split_ws cur (c # cs) =
     (if is_space c then (if cur = [] then split_ws [] cs else cur # split_ws [] cs)
      else split_ws (cur @ [c]) cs)"

fun join_space :: "string list \<Rightarrow> string" where
  "join_space [] = []"
| "join_space [w] = w"
| "join_space (w # ws) = w @ '' '' @ join_space ws"

definition norm :: "string \<Rightarrow> string" where
  "norm s = join_space (split_ws [] (sub_non_alnum (del_parens (strip (map lower_char s)))))"

text \<open>\<open>d.setdefault(k, []).append(v)\<close>.\<close>

definition setdefault_append :: "'k \<Rightarrow> 'v \<Rightarrow> ('k \<times> 'v list) list \<Rightarrow> ('k \<times> 'v list) list" where
  "setdefault_append k v d =
     (case map_of d k of
        None \<Rightarrow> d @ [(k, [v])]
      | Some vs \<Rightarrow> AList.update k (vs @ [v]) d)"

definition category_step ::
  "(string \<times> int list) list \<Rightarrow> int \<times> DrumDef \<Rightarrow> (string \<times> int list) list" where
  "category_step cat_to_notes item =
     (case item of (k, info) \<Rightarrow>
        (let nm = name info;
             cat = (case category info of None \<Rightarrow> [] | Some c \<Rightarrow> c)
         in if nm = [] \<or> cat = [] then cat_to_notes
            else if cat = ''empty'' \<or> norm nm = ''empty slot'' then cat_to_notes
            else setdefault_append cat k cat_to_notes))"

definition build_rs_category_to_notes ::
  "(int \<times> DrumDef) list \<Rightarrow> (string \<times> int list) list" where
  "build_rs_category_to_notes rs_drums_by_note =
     map (\<lambda>(cat, ns). (cat, sort ns)) (foldl category_step [] rs_drums_by_note)"

definition preferred_table :: "(string \<times> int) list" where
  "preferred_table =
     [(''kick'', 36), (''snare'', 38), (''hihat'', 42), (''crash'', 55), (''clap'', 39),
      (''tom'', 45), (''bell'', 53), (''shaker'', 54)]"

definition preferred_rs_note :: "string \<Rightarrow> (string \<times> int list) list \<Rightarrow> int option" where
  "preferred_rs_note cat cat_to_notes =
     (case (case map_of cat_to_notes cat of None \<Rightarrow> [] | Some ns \<Rightarrow> ns) of
        [] \<Rightarrow> None
      | n # ns \<Rightarrow>
          (case map_of preferred_table cat of
             Some pref \<Rightarrow> if pref \<in> set (n # ns) then Some pref else Some n
           | None \<Rightarrow> Some n))"

definition build_gm_to_rs :: "(int \<times> DrumDef) list \<Rightarrow> (int \<times> int) list" where
  "build_gm_to_rs rs_drums_by_note =
     (let cat_to_notes = build_rs_category_to_notes rs_drums_by_note;
          cat_to_pref =
            foldl (\<lambda>d cat. case preferred_rs_note cat cat_to_notes of
                              Some p \<Rightarrow> AList.update cat p d
                            | None \<Rightarrow> d)
                  [] (map fst cat_to_notes)
      in foldl (\<lambda>d (gm_note, cat). case map_of cat_to_pref cat of
                                     Some rs_note \<Rightarrow> AList.update gm_note rs_note d
                                   | None \<Rightarrow> d)
               [] GM_NOTE_TO_CATEGORY)"

text \<open>
  One note of the loop of \<open>remap_channel_9_notes_in_place\<close>.  The state is the count
  of changed notes, the set of unmapped pitches and the notes already visited.
\<close>

definition remap_step ::
  "(int \<times> int) list \<Rightarrow> int set \<Rightarrow> int \<times> int set \<times> NoteEvent list \<Rightarrow> NoteEvent
     \<Rightarrow> int \<times> int set \<times> NoteEvent list" where
  "remap_step gm_to_rs rs_valid st n =
     (case st of (changed, unmapped, out) \<Rightarrow>
        if channel n \<noteq> 9 then (changed, unmapped, out @ [n])
        else
          (case map_of gm_to_rs (pitch n) of
             Some new_pitch \<Rightarrow>
               if new_pitch \<noteq> pitch n
               then (changed + 1, unmapped, out @ [n\<lparr>pitch := new_pitch\<rparr>])
               else (changed, unmapped, out @ [n])
           | None \<Rightarrow>
               if pitch n \<in> rs_valid then (changed, unmapped, out @ [n])
               else (changed, insert (pitch n) unmapped, out @ [n])))"

text \<open>
  The result is the returned pair \<open>(changed, unmapped)\<close> and the note list after the
  in-place updates.  \<open>keep_unmapped\<close> is read and changes nothing.
\<close>

definition remap_channel_9_notes_in_place ::
  "NoteEvent list \<Rightarrow> (int \<times> DrumDef) list \<Rightarrow> bool \<Rightarrow> int \<times> int set \<times> NoteEvent list" where
  "remap_channel_9_notes_in_place ns rs_drums_by_note keep_unmapped =
     foldl (remap_step (build_gm_to_rs rs_drums_by_note) (set (map fst rs_drums_by_note)))
           (0, {}, []) ns"

text \<open>
  A derived mapping whose targets it leaves alone: no target pitch is a source pitch
  with another target.
\<close>

definition stable_targets :: "(int \<times> int) list \<Rightarrow> bool" where
  "stable_targets g =
     list_all (\<lambda>(p, t). case map_of g t of None \<Rightarrow> True | Some t' \<Rightarrow> t' = t) g"

text \<open>
  What the loop does to one note, and whether it counts the note as changed; the
  lemmas below relate the loop to them.
\<close>

definition remap_note :: "(int \<times> int) list \<Rightarrow> NoteEvent \<Rightarrow> NoteEvent" where
  "remap_note g n =
     (if channel n = 9
      then (case map_of g (pitch n) of Some np \<Rightarrow> n\<lparr>pitch := np\<rparr> | None \<Rightarrow> n)
      else n)"

definition remap_changes :: "(int \<times> int) list \<Rightarrow> NoteEvent \<Rightarrow> bool" where
  "remap_changes g n =
     (channel n = 9 \<and> (case map_of g (pitch n) of Some np \<Rightarrow> np \<noteq> pitch n | None \<Rightarrow> False))"

text \<open>
  A drum that \<open>_build_rs_category_to_notes\<close> files under a category, and a drumset
  in which every such drum that sits on a note of \<open>GM_NOTE_TO_CATEGORY\<close> has the
  category of that note.
\<close>

definition eligible :: "DrumDef \<Rightarrow> string \<Rightarrow> bool" where
  "eligible info cat =
     (category info = Some cat \<and> name info \<noteq> [] \<and> cat \<noteq> [] \<and> cat \<noteq> ''empty'' \<and>
      norm (name info) \<noteq> ''empty slot'')"

definition gm_consistent :: "(int \<times> DrumDef) list \<Rightarrow> bool" where
  "gm_consistent rs =
     list_all (\<lambda>(k, info). case category info of
                               None \<Rightarrow> True
                             | Some cat \<Rightarrow>
                                 (eligible info cat \<longrightarrow>
                                    list_all (\<lambda>(g, c). g = k \<longrightarrow> c = cat) GM_NOTE_TO_CATEGORY)) rs"

text \<open>
  The invariant of the category loop, and the bodies of the two loops of
  \<open>_build_gm_to_rs\<close> as functions, for the lemmas about them.
\<close>

definition cat_inv :: "(int \<times> DrumDef) set \<Rightarrow> (string \<times> int list) list \<Rightarrow> bool" where
  "cat_inv S acc =
     (\<forall>cat ns n. map_of acc cat = Some ns \<longrightarrow> n \<in> set ns \<longrightarrow>
        (\<exists>info. (n, info) \<in> S \<and> eligible info cat))"

definition pref_step :: "(string \<times> int list) list \<Rightarrow> (string \<times> int) list \<Rightarrow> string \<Rightarrow> (string \<times> int) list" where
  "pref_step c2n d cat = (case preferred_rs_note cat c2n of Some p \<Rightarrow> AList.update cat p d | None \<Rightarrow> d)"

definition gm_step :: "(string \<times> int) list \<Rightarrow> (int \<times> int) list \<Rightarrow> int \<times> string \<Rightarrow> (int \<times> int) list" where
  "gm_step c2p d item =
     (case item of (gm_note, cat) \<Rightarrow>
        (case map_of c2p cat of Some rs_note \<Rightarrow> AList.update gm_note rs_note d | None \<Rightarrow> d))"

text \<open>The property of a note list that its notes all end after they start.\<close>

definition positive :: "NoteEvent list \<Rightarrow> bool" where
  "positive ns = list_all (\<lambda>n. start_tick n < end_tick n) ns"

section \<open>Channel mutation operations\<close>

lemma swap_note_twice: "swap_note a b (swap_note a b n) = n"
  by (simp add: swap_note_def)

lemma map_of_swap_entries:
  "a \<noteq> b \<Longrightarrow>
   map_of (swap_entries a b d) = (map_of d)(b := map_of d a, a := map_of d b)"
  by (auto simp: swap_entries_def Let_def update_conv' delete_conv' fun_eq_iff
           split: option.splits)

lemma map_of_swap_entries_twice:
  "map_of (swap_entries a b (swap_entries a b d)) = map_of d"
proof (cases "a = b")
  case True
  then show ?thesis
    by (auto simp: swap_entries_def Let_def update_conv' delete_conv' fun_eq_iff
             split: option.splits)
next
  case False
  then show ?thesis
    by (simp add: map_of_swap_entries fun_eq_iff)
qed

text \<open>
  C6. Applying \<open>swap_channels a b\<close> twice gives back the project: the note list (hence
  every note's channel), the content of \<open>channel_instrument_id\<close> and of
  \<open>channel_track_name\<close> (a key is present after the two swaps exactly when it was present
  before, with the same value), and the remaining fields.
\<close>

theorem swap_channels_twice:
  "notes (swap_channels a b (swap_channels a b p)) = notes p \<and>
   map_of (channel_instrument_id (swap_channels a b (swap_channels a b p)))
     = map_of (channel_instrument_id p) \<and>
   map_of (channel_track_name (swap_channels a b (swap_channels a b p)))
     = map_of (channel_track_name p) \<and>
   ticks_per_beat (swap_channels a b (swap_channels a b p)) = ticks_per_beat p \<and>
   tempo_bpm (swap_channels a b (swap_channels a b p)) = tempo_bpm p \<and>
   muted_channels (swap_channels a b (swap_channels a b p)) = muted_channels p"
  by (simp add: swap_channels_def map_of_swap_entries_twice swap_note_twice comp_def)

text \<open>
  C10. \<open>delete_channel\<close>, \<open>merge_channel_into\<close> and \<open>swap_channels\<close> leave
  \<open>ticks_per_beat\<close>, \<open>tempo_bpm\<close> and \<open>muted_channels\<close> as they were; a deleted channel
  that was muted stays in \<open>muted_channels\<close>.
\<close>

theorem channel_ops_frame:
  "ticks_per_beat (delete_channel ch p) = ticks_per_beat p \<and>
   tempo_bpm (delete_channel ch p) = tempo_bpm p \<and>
   muted_channels (delete_channel ch p) = muted_channels p \<and>
   ticks_per_beat (merge_channel_into src dst p) = ticks_per_beat p \<and>
   tempo_bpm (merge_channel_into src dst p) = tempo_bpm p \<and>
   muted_channels (merge_channel_into src dst p) = muted_channels p \<and>
   ticks_per_beat (swap_channels a b p) = ticks_per_beat p \<and>
   tempo_bpm (swap_channels a b p) = tempo_bpm p \<and>
   muted_channels (swap_channels a b p) = muted_channels p"
  by (simp add: delete_channel_def merge_channel_into_def swap_channels_def Let_def)

section \<open>Decoding: pairing and durations\<close>

lemma decode_msg_tick: "fst (decode_msg t (a, act, ns) m) = a + time m"
  by (simp add: decode_msg_def Let_def split: msg_kind.splits prod.splits)

lemma foldl_decode_msg_tick:
  "fst (foldl (decode_msg t) (a, act, ns) trk) = a + sum_list (map time trk)"
proof (induction trk arbitrary: a act ns)
  case Nil
  show ?case by simp
next
  case (Cons m trk)
  obtain a' act' ns' where st: "decode_msg t (a, act, ns) m = (a', act', ns')"
    by (cases "decode_msg t (a, act, ns) m") auto
  have "a' = a + time m"
    using decode_msg_tick [of t a act ns m] st by simp
  then show ?case
    using Cons.IH [of a' act' ns'] st by simp
qed

lemma pop_pending_positive:
  "positive ns \<Longrightarrow> positive (snd (pop_pending t T ch p act ns))"
  by (simp add: pop_pending_def positive_def split: option.splits list.splits prod.splits)

lemma decode_msg_positive:
  "positive ns \<Longrightarrow> positive (snd (snd (decode_msg t (a, act, ns) m)))"
  using pop_pending_positive [of ns t "a + time m" _ _ act]
  by (auto simp: decode_msg_def Let_def split: msg_kind.splits prod.splits)

lemma foldl_decode_msg_positive:
  "positive ns \<Longrightarrow> positive (snd (snd (foldl (decode_msg t) (a, act, ns) trk)))"
proof (induction trk arbitrary: a act ns)
  case Nil
  then show ?case by simp
next
  case (Cons m trk)
  obtain a' act' ns' where st: "decode_msg t (a, act, ns) m = (a', act', ns')"
    by (cases "decode_msg t (a, act, ns) m") auto
  have "positive ns'"
    using decode_msg_positive [OF Cons.prems, of t a act m] st by simp
  then show ?case
    using Cons.IH [of ns' a' act'] st by simp
qed

lemma close_stuck_positive: "positive (close_stuck t T act)"
  by (induction act) (auto simp: close_stuck_def positive_def list_all_iff)

lemma decode_track_positive: "positive ns \<Longrightarrow> positive (decode_track ns it)"
proof -
  assume pos: "positive ns"
  obtain i trk where it: "it = (i, trk)" by (cases it)
  obtain a act ns' where st: "foldl (decode_msg (int i)) (0, [], ns) trk = (a, act, ns')"
    by (cases "foldl (decode_msg (int i)) (0, [], ns) trk") auto
  have "positive ns'"
    using foldl_decode_msg_positive [OF pos, of "int i" 0 "[]" trk] st by simp
  then show ?thesis
    using close_stuck_positive [of "int i" a act]
    by (simp add: decode_track_def it st positive_def)
qed

lemma foldl_decode_track_positive:
  "positive ns \<Longrightarrow> positive (foldl decode_track ns its)"
  by (induction its arbitrary: ns) (simp_all add: decode_track_positive)

lemma close_stuck_end:
  "n \<in> set (close_stuck t T act) \<Longrightarrow> end_tick n = max (start_tick n + 1) T"
  by (auto simp: close_stuck_def)

lemma close_stuck_entries:
  "map (\<lambda>n. ((channel n, pitch n), (start_tick n, velocity n))) (close_stuck t T act)
     = concat (map (\<lambda>(k, st). map (Pair k) st) act)"
  by (induction act) (auto simp: close_stuck_def)

lemma decode_track_split:
  "\<exists>act ns'. foldl (decode_msg (int i)) (0, [], ns) trk = (sum_list (map time trk), act, ns')
      \<and> decode_track ns (i, trk) = ns' @ close_stuck (int i) (sum_list (map time trk)) act"
proof -
  obtain a act ns' where st: "foldl (decode_msg (int i)) (0, [], ns) trk = (a, act, ns')"
    by (cases "foldl (decode_msg (int i)) (0, [], ns) trk") auto
  have "a = sum_list (map time trk)"
    using foldl_decode_msg_tick [of "int i" 0 "[]" ns trk] st by simp
  then show ?thesis
    using st by (simp add: decode_track_def)
qed

lemma pop_dropped:
  "(kind m = NoteOff ch pt vel \<or> kind m = NoteOn ch pt 0) \<Longrightarrow>
   map_of active (ch, pt) = Some ((s, v) # rest) \<Longrightarrow> tick + time m \<le> s \<Longrightarrow>
   decode_msg t (tick, active, ns) m = (tick + time m, AList.update (ch, pt) rest active, ns)"
  by (auto simp: decode_msg_def pop_pending_def Let_def)

lemma decode_msg_off:
  "(kind m = NoteOff ch pt vel \<or> kind m = NoteOn ch pt 0) \<Longrightarrow>
   map_of active (ch, pt) = Some ((s, v) # rest) \<Longrightarrow>
   decode_msg t (tick, active, ns) m =
     (tick + time m, AList.update (ch, pt) rest active,
      if s < tick + time m
      then ns @ [\<lparr>start_tick = s, end_tick = tick + time m, pitch = pt, velocity = v,
                  channel = ch, track_index = t\<rparr>]
      else ns)"
  by (auto simp: decode_msg_def pop_pending_def Let_def)


text \<open>
  C1. A note-off, or a note-on of velocity 0, on a key whose pending list is not empty
  removes the first (oldest) entry of that list, and appends a note from the entry's
  start to the current tick exactly when the start is before the current tick.  Three
  notes on one key that start at ticks 0, 10 and 20 and stop at ticks 5, 15 and 25
  decode to (0,5), (10,15), (20,25): in the order of their ticks, and also in the
  order of the three note-ons followed by the three note-offs (an order that only
  a negative delta time can give to these ticks).
\<close>

theorem decode_fifo_pairing:
  "((kind m = NoteOff ch pt vel \<or> kind m = NoteOn ch pt 0) \<and>
    map_of active (ch, pt) = Some ((s, v) # rest) \<longrightarrow>
      decode_msg t (tick, active, ns) m =
        (tick + time m, AList.update (ch, pt) rest active,
         if s < tick + time m
         then ns @ [\<lparr>start_tick = s, end_tick = tick + time m, pitch = pt, velocity = v,
                     channel = ch, track_index = t\<rparr>]
         else ns)) \<and>
   (0 < vl \<longrightarrow>
      load_midi_as_notes
        \<lparr>mf_ticks_per_beat = tpb,
         tracks = [[\<lparr>time = 0, kind = NoteOn c k vl\<rparr>, \<lparr>time = 5, kind = NoteOff c k vo\<rparr>,
                    \<lparr>time = 5, kind = NoteOn c k vl\<rparr>, \<lparr>time = 5, kind = NoteOff c k vo\<rparr>,
                    \<lparr>time = 5, kind = NoteOn c k vl\<rparr>, \<lparr>time = 5, kind = NoteOff c k vo\<rparr>]]\<rparr>
      = Inr \<lparr>ticks_per_beat = tpb,
             notes = [\<lparr>start_tick = 0, end_tick = 5, pitch = k, velocity = vl,
                       channel = c, track_index = 0\<rparr>,
                      \<lparr>start_tick = 10, end_tick = 15, pitch = k, velocity = vl,
                       channel = c, track_index = 0\<rparr>,
                      \<lparr>start_tick = 20, end_tick = 25, pitch = k, velocity = vl,
                       channel = c, track_index = 0\<rparr>],
             channel_instrument_id = [], tempo_bpm = 120,
             channel_track_name = [], muted_channels = {}\<rparr>) \<and>
   (0 < vl \<longrightarrow>
      foldl decode_track []
        (List.enumerate 0
          [[\<lparr>time = 0, kind = NoteOn c k vl\<rparr>, \<lparr>time = 10, kind = NoteOn c k vl\<rparr>,
            \<lparr>time = 10, kind = NoteOn c k vl\<rparr>, \<lparr>time = - 15, kind = NoteOff c k vo\<rparr>,
            \<lparr>time = 10, kind = NoteOff c k vo\<rparr>, \<lparr>time = 10, kind = NoteOff c k vo\<rparr>]])
      = [\<lparr>start_tick = 0, end_tick = 5, pitch = k, velocity = vl,
          channel = c, track_index = 0\<rparr>,
         \<lparr>start_tick = 10, end_tick = 15, pitch = k, velocity = vl,
          channel = c, track_index = 0\<rparr>,
         \<lparr>start_tick = 20, end_tick = 25, pitch = k, velocity = vl,
          channel = c, track_index = 0\<rparr>])"
proof (intro conjI impI)
  assume "(kind m = NoteOff ch pt vel \<or> kind m = NoteOn ch pt 0) \<and>
    map_of active (ch, pt) = Some ((s, v) # rest)"
  then show "decode_msg t (tick, active, ns) m =
        (tick + time m, AList.update (ch, pt) rest active,
         if s < tick + time m
         then ns @ [\<lparr>start_tick = s, end_tick = tick + time m, pitch = pt, velocity = v,
                     channel = ch, track_index = t\<rparr>]
         else ns)"
    using decode_msg_off [of m ch pt vel active s v rest t tick ns] by blast
next
  assume "0 < vl"
  then show "load_midi_as_notes
        \<lparr>mf_ticks_per_beat = tpb,
         tracks = [[\<lparr>time = 0, kind = NoteOn c k vl\<rparr>, \<lparr>time = 5, kind = NoteOff c k vo\<rparr>,
                    \<lparr>time = 5, kind = NoteOn c k vl\<rparr>, \<lparr>time = 5, kind = NoteOff c k vo\<rparr>,
                    \<lparr>time = 5, kind = NoteOn c k vl\<rparr>, \<lparr>time = 5, kind = NoteOff c k vo\<rparr>]]\<rparr>
      = Inr \<lparr>ticks_per_beat = tpb,
             notes = [\<lparr>start_tick = 0, end_tick = 5, pitch = k, velocity = vl,
                       channel = c, track_index = 0\<rparr>,
                      \<lparr>start_tick = 10, end_tick = 15, pitch = k, velocity = vl,
                       channel = c, track_index = 0\<rparr>,
                      \<lparr>start_tick = 20, end_tick = 25, pitch = k, velocity = vl,
                       channel = c, track_index = 0\<rparr>],
             channel_instrument_id = [], tempo_bpm = 120,
             channel_track_name = [], muted_channels = {}\<rparr>"
    by (simp add: load_midi_as_notes_def extract_tempo_bpm_def decode_track_def
          decode_msg_def push_pending_def pop_pending_def close_stuck_def enumerate_eq_zip
          extract_channel_track_names_def track_names_of_track_def track_name_step_def
          setdefault_def)
next
  assume "0 < vl"
  then show "foldl decode_track []
        (List.enumerate 0
          [[\<lparr>time = 0, kind = NoteOn c k vl\<rparr>, \<lparr>time = 10, kind = NoteOn c k vl\<rparr>,
            \<lparr>time = 10, kind = NoteOn c k vl\<rparr>, \<lparr>time = - 15, kind = NoteOff c k vo\<rparr>,
            \<lparr>time = 10, kind = NoteOff c k vo\<rparr>, \<lparr>time = 10, kind = NoteOff c k vo\<rparr>]])
      = [\<lparr>start_tick = 0, end_tick = 5, pitch = k, velocity = vl,
          channel = c, track_index = 0\<rparr>,
         \<lparr>start_tick = 10, end_tick = 15, pitch = k, velocity = vl,
          channel = c, track_index = 0\<rparr>,
         \<lparr>start_tick = 20, end_tick = 25, pitch = k, velocity = vl,
          channel = c, track_index = 0\<rparr>]"
    by (simp add: decode_track_def decode_msg_def push_pending_def pop_pending_def
          close_stuck_def enumerate_eq_zip)
qed

theorem decode_fifo_pairing_witness:
  "map_of [((0::int, 60::int), [(0::int, 100::int), (10, 100)])] (0, 60) = Some ((0, 100) # [(10, 100)]) \<and>
   decode_msg 0 (10, [((0, 60), [(0, 100), (10, 100)])], []) \<lparr>time = 10, kind = NoteOff 0 60 0\<rparr>
     = (20, [((0, 60), [(10, 100)])],
        [\<lparr>start_tick = 0, end_tick = 20, pitch = 60, velocity = 100,
          channel = 0, track_index = 0\<rparr>]) \<and>
   (0::int) < 100 \<and>
   load_midi_as_notes
     \<lparr>mf_ticks_per_beat = 480,
      tracks = [[\<lparr>time = 0, kind = NoteOn 0 60 100\<rparr>, \<lparr>time = 5, kind = NoteOff 0 60 0\<rparr>,
                 \<lparr>time = 5, kind = NoteOn 0 60 100\<rparr>, \<lparr>time = 5, kind = NoteOff 0 60 0\<rparr>,
                 \<lparr>time = 5, kind = NoteOn 0 60 100\<rparr>, \<lparr>time = 5, kind = NoteOff 0 60 0\<rparr>]]\<rparr>
     = Inr \<lparr>ticks_per_beat = 480,
            notes = [\<lparr>start_tick = 0, end_tick = 5, pitch = 60, velocity = 100,
                      channel = 0, track_index = 0\<rparr>,
                     \<lparr>start_tick = 10, end_tick = 15, pitch = 60, velocity = 100,
                      channel = 0, track_index = 0\<rparr>,
                     \<lparr>start_tick = 20, end_tick = 25, pitch = 60, velocity = 100,
                      channel = 0, track_index = 0\<rparr>],
            channel_instrument_id = [], tempo_bpm = 120,
            channel_track_name = [], muted_channels = {}\<rparr>"
  using decode_fifo_pairing [of "\<lparr>time = 10, kind = NoteOff 0 60 0\<rparr>" 0 60 0
      "[((0, 60), [(0, 100), (10, 100)])]" 0 100 "[(10, 100)]" 0 10 "[]" 100 480 0 60 0]
  by simp

text \<open>
  C2. Every note of a decoded project ends strictly after it starts.  A note-off (or a
  note-on of velocity 0) whose tick is not after the start of the entry it pops removes
  that entry and emits nothing.  At the end of a track, whose final tick is the sum of
  its delta times, every entry still pending is emitted, in the order of the
  dictionary and of its lists, with \<open>end_tick = max (start_tick + 1) final_tick\<close>.
\<close>

theorem decode_positive_duration:
  "(load_midi_as_notes mid = Inr p \<longrightarrow> (\<forall>n\<in>set (notes p). start_tick n < end_tick n)) \<and>
   ((kind m = NoteOff ch pt vel \<or> kind m = NoteOn ch pt 0) \<and>
    map_of active (ch, pt) = Some ((s, v) # rest) \<and> tick + time m \<le> s \<longrightarrow>
      decode_msg t (tick, active, ns) m
        = (tick + time m, AList.update (ch, pt) rest active, ns)) \<and>
   (\<exists>act ns'.
      foldl (decode_msg (int i)) (0, [], ns0) trk = (sum_list (map time trk), act, ns') \<and>
      decode_track ns0 (i, trk) = ns' @ close_stuck (int i) (sum_list (map time trk)) act \<and>
      (\<forall>n\<in>set (close_stuck (int i) (sum_list (map time trk)) act).
         end_tick n = max (start_tick n + 1) (sum_list (map time trk))) \<and>
      map (\<lambda>n. ((channel n, pitch n), (start_tick n, velocity n)))
          (close_stuck (int i) (sum_list (map time trk)) act)
        = concat (map (\<lambda>(k, st). map (Pair k) st) act))"
proof (intro conjI)
  show "load_midi_as_notes mid = Inr p \<longrightarrow> (\<forall>n\<in>set (notes p). start_tick n < end_tick n)"
  proof (intro impI ballI)
    fix n
    assume l: "load_midi_as_notes mid = Inr p" and n: "n \<in> set (notes p)"
    have "positive (foldl decode_track [] (List.enumerate 0 (tracks mid)))"
      by (rule foldl_decode_track_positive) (simp add: positive_def)
    moreover have "notes p = foldl decode_track [] (List.enumerate 0 (tracks mid))"
      using l by (auto simp: load_midi_as_notes_def split: sum.splits)
    ultimately show "start_tick n < end_tick n"
      using n by (simp add: positive_def list_all_iff)
  qed
next
  show "(kind m = NoteOff ch pt vel \<or> kind m = NoteOn ch pt 0) \<and>
    map_of active (ch, pt) = Some ((s, v) # rest) \<and> tick + time m \<le> s \<longrightarrow>
      decode_msg t (tick, active, ns) m
        = (tick + time m, AList.update (ch, pt) rest active, ns)"
    using decode_msg_off [of m ch pt vel active s v rest t tick ns] by auto
next
  obtain act ns' where
    st: "foldl (decode_msg (int i)) (0, [], ns0) trk = (sum_list (map time trk), act, ns')" and
    dt: "decode_track ns0 (i, trk) = ns' @ close_stuck (int i) (sum_list (map time trk)) act"
    using decode_track_split [of i ns0 trk] by blast
  show "\<exists>act ns'.
      foldl (decode_msg (int i)) (0, [], ns0) trk = (sum_list (map time trk), act, ns') \<and>
      decode_track ns0 (i, trk) = ns' @ close_stuck (int i) (sum_list (map time trk)) act \<and>
      (\<forall>n\<in>set (close_stuck (int i) (sum_list (map time trk)) act).
         end_tick n = max (start_tick n + 1) (sum_list (map time trk))) \<and>
      map (\<lambda>n. ((channel n, pitch n), (start_tick n, velocity n)))
          (close_stuck (int i) (sum_list (map time trk)) act)
        = concat (map (\<lambda>(k, st). map (Pair k) st) act)"
    using st dt close_stuck_end close_stuck_entries by blast
qed


theorem decode_positive_duration_witness:
  "load_midi_as_notes
     \<lparr>mf_ticks_per_beat = 480,
      tracks = [[\<lparr>time = 0, kind = NoteOn 0 60 100\<rparr>, \<lparr>time = 0, kind = NoteOn 0 62 90\<rparr>,
                 \<lparr>time = 0, kind = NoteOff 0 62 0\<rparr>, \<lparr>time = 5, kind = NoteOff 0 60 0\<rparr>,
                 \<lparr>time = 5, kind = NoteOn 0 64 80\<rparr>, \<lparr>time = 10, kind = NoteOn 0 65 70\<rparr>,
                 \<lparr>time = 0, kind = EndOfTrack\<rparr>]]\<rparr>
     = Inr \<lparr>ticks_per_beat = 480,
            notes = [\<lparr>start_tick = 0, end_tick = 5, pitch = 60, velocity = 100,
                      channel = 0, track_index = 0\<rparr>,
                     \<lparr>start_tick = 10, end_tick = 20, pitch = 64, velocity = 80,
                      channel = 0, track_index = 0\<rparr>,
                     \<lparr>start_tick = 20, end_tick = 21, pitch = 65, velocity = 70,
                      channel = 0, track_index = 0\<rparr>],
            channel_instrument_id = [], tempo_bpm = 120,
            channel_track_name = [], muted_channels = {}\<rparr> \<and>
   (0::int) < 5 \<and> (10::int) < 20 \<and> (20::int) < 21 \<and>
   map_of [((0::int, 62::int), [(0::int, 90::int)])] (0, 62) = Some ((0, 90) # []) \<and>
   (0::int) + 0 \<le> 0 \<and>
   decode_msg 0 (0, [((0, 62), [(0, 90)])], []) \<lparr>time = 0, kind = NoteOff 0 62 0\<rparr>
     = (0, [((0, 62), [])], []) \<and>
   decode_track [] (0, [\<lparr>time = 10, kind = NoteOn 0 64 80\<rparr>, \<lparr>time = 10, kind = NoteOn 0 65 70\<rparr>])
     = [\<lparr>start_tick = 10, end_tick = 20, pitch = 64, velocity = 80,
         channel = 0, track_index = 0\<rparr>,
        \<lparr>start_tick = 20, end_tick = 21, pitch = 65, velocity = 70,
         channel = 0, track_index = 0\<rparr>]"
proof -
  let ?f = "\<lparr>mf_ticks_per_beat = 480,
      tracks = [[\<lparr>time = 0, kind = NoteOn 0 60 100\<rparr>, \<lparr>time = 0, kind = NoteOn 0 62 90\<rparr>,
                 \<lparr>time = 0, kind = NoteOff 0 62 0\<rparr>, \<lparr>time = 5, kind = NoteOff 0 60 0\<rparr>,
                 \<lparr>time = 5, kind = NoteOn 0 64 80\<rparr>, \<lparr>time = 10, kind = NoteOn 0 65 70\<rparr>,
                 \<lparr>time = 0, kind = EndOfTrack\<rparr>]]\<rparr>"
  let ?p = "\<lparr>ticks_per_beat = 480,
            notes = [\<lparr>start_tick = 0, end_tick = 5, pitch = 60, velocity = 100,
                      channel = 0, track_index = 0\<rparr>,
                     \<lparr>start_tick = 10, end_tick = 20, pitch = 64, velocity = 80,
                      channel = 0, track_index = 0\<rparr>,
                     \<lparr>start_tick = 20, end_tick = 21, pitch = 65, velocity = 70,
                      channel = 0, track_index = 0\<rparr>],
            channel_instrument_id = [], tempo_bpm = 120,
            channel_track_name = [], muted_channels = {}\<rparr>"
  have l: "load_midi_as_notes ?f = Inr ?p"
    by code_simp
  have d: "decode_track [] (0, [\<lparr>time = 10, kind = NoteOn 0 64 80\<rparr>, \<lparr>time = 10, kind = NoteOn 0 65 70\<rparr>])
     = [\<lparr>start_tick = 10, end_tick = 20, pitch = 64, velocity = 80,
         channel = 0, track_index = 0\<rparr>,
        \<lparr>start_tick = 20, end_tick = 21, pitch = 65, velocity = 70,
         channel = 0, track_index = 0\<rparr>]"
    by code_simp
  show ?thesis
    using l d
      decode_positive_duration [of ?f ?p "\<lparr>time = 0, kind = NoteOff 0 62 0\<rparr>" 0 62 0
        "[((0, 62), [(0, 90)])]" 0 90 "[]" 0 0 "[]" 0 "[]"
        "[\<lparr>time = 10, kind = NoteOn 0 64 80\<rparr>, \<lparr>time = 10, kind = NoteOn 0 65 70\<rparr>]"]
    by simp
qed

section \<open>Drum remapping: frame and repeated application\<close>

lemma remap_step_eq:
  "remap_step g v (c, u, out) n =
     (if remap_changes g n then c + 1 else c,
      if channel n = 9 \<and> map_of g (pitch n) = None \<and> pitch n \<notin> v then insert (pitch n) u else u,
      out @ [remap_note g n])"
  by (auto simp: remap_step_def remap_note_def remap_changes_def split: option.splits)

lemma foldl_remap_step:
  "\<exists>u'. foldl (remap_step g v) (c, u, out) ns =
     (c + int (length (filter (remap_changes g) ns)), u', out @ map (remap_note g) ns)"
proof (induction ns arbitrary: c u out)
  case Nil
  show ?case by simp
next
  case (Cons n ns)
  show ?case
    using Cons.IH [of "if remap_changes g n then c + 1 else c"
        "if channel n = 9 \<and> map_of g (pitch n) = None \<and> pitch n \<notin> v then insert (pitch n) u else u"
        "out @ [remap_note g n]"]
    by (auto simp: remap_step_eq)
qed

lemma remap_result:
  "remap_channel_9_notes_in_place ns rs keep = (changed, unmapped, ns') \<Longrightarrow>
   changed = int (length (filter (remap_changes (build_gm_to_rs rs)) ns)) \<and>
   ns' = map (remap_note (build_gm_to_rs rs)) ns"
  using foldl_remap_step [of "build_gm_to_rs rs" "set (map fst rs)" 0 "{}" "[]" ns]
  by (auto simp: remap_channel_9_notes_in_place_def)

lemma remap_note_frame:
  "(channel n \<noteq> 9 \<longrightarrow> remap_note g n = n) \<and>
   start_tick (remap_note g n) = start_tick n \<and> end_tick (remap_note g n) = end_tick n \<and>
   velocity (remap_note g n) = velocity n \<and> channel (remap_note g n) = channel n \<and>
   track_index (remap_note g n) = track_index n"
  by (simp add: remap_note_def split: option.splits)

text \<open>
  C9. \<open>remap_channel_9_notes_in_place\<close> keeps the length of the note list; a note
  whose channel is not 9 is left as it is, and every note keeps its \<open>start_tick\<close>,
  \<open>end_tick\<close>, \<open>velocity\<close>, \<open>channel\<close> and \<open>track_index\<close>.
\<close>

theorem remap_frame:
  "remap_channel_9_notes_in_place ns rs keep = (changed, unmapped, ns') \<Longrightarrow>
   length ns' = length ns \<and>
   (\<forall>i<length ns.
      (channel (ns ! i) \<noteq> 9 \<longrightarrow> ns' ! i = ns ! i) \<and>
      start_tick (ns' ! i) = start_tick (ns ! i) \<and> end_tick (ns' ! i) = end_tick (ns ! i) \<and>
      velocity (ns' ! i) = velocity (ns ! i) \<and> channel (ns' ! i) = channel (ns ! i) \<and>
      track_index (ns' ! i) = track_index (ns ! i))"
proof -
  assume r: "remap_channel_9_notes_in_place ns rs keep = (changed, unmapped, ns')"
  have ns': "ns' = map (remap_note (build_gm_to_rs rs)) ns"
    using remap_result [OF r] by simp
  show ?thesis
    unfolding ns' using remap_note_frame [of _ "build_gm_to_rs rs"] by simp
qed

theorem remap_frame_witness:
  "remap_channel_9_notes_in_place
     [\<lparr>start_tick = 0, end_tick = 10, pitch = 35, velocity = 100, channel = 9, track_index = 0\<rparr>,
      \<lparr>start_tick = 0, end_tick = 10, pitch = 35, velocity = 100, channel = 0, track_index = 0\<rparr>,
      \<lparr>start_tick = 5, end_tick = 10, pitch = 40, velocity = 90, channel = 9, track_index = 1\<rparr>,
      \<lparr>start_tick = 7, end_tick = 10, pitch = 99, velocity = 80, channel = 9, track_index = 1\<rparr>]
     [(36, \<lparr>midi_note = 36, name = ''Kick'', category = Some ''kick''\<rparr>),
      (38, \<lparr>midi_note = 38, name = ''Snare'', category = Some ''snare''\<rparr>),
      (42, \<lparr>midi_note = 42, name = ''Closed Hat'', category = Some ''hihat''\<rparr>)] True
   = (2, {99},
     [\<lparr>start_tick = 0, end_tick = 10, pitch = 36, velocity = 100, channel = 9, track_index = 0\<rparr>,
      \<lparr>start_tick = 0, end_tick = 10, pitch = 35, velocity = 100, channel = 0, track_index = 0\<rparr>,
      \<lparr>start_tick = 5, end_tick = 10, pitch = 38, velocity = 90, channel = 9, track_index = 1\<rparr>,
      \<lparr>start_tick = 7, end_tick = 10, pitch = 99, velocity = 80, channel = 9, track_index = 1\<rparr>]) \<and>
   length [\<lparr>start_tick = 0, end_tick = 10, pitch = 36, velocity = 100, channel = 9, track_index = 0\<rparr>,
      \<lparr>start_tick = 0, end_tick = 10, pitch = 35, velocity = 100, channel = 0, track_index = 0\<rparr>,
      \<lparr>start_tick = 5, end_tick = 10, pitch = 38, velocity = 90, channel = 9, track_index = 1\<rparr>,
      \<lparr>start_tick = 7, end_tick = 10, pitch = 99, velocity = 80, channel = 9, track_index = 1\<rparr>]
     = length [\<lparr>start_tick = 0, end_tick = 10, pitch = 35, velocity = 100, channel = 9, track_index = 0\<rparr>,
      \<lparr>start_tick = 0, end_tick = 10, pitch = 35, velocity = 100, channel = 0, track_index = 0\<rparr>,
      \<lparr>start_tick = 5, end_tick = 10, pitch = 40, velocity = 90, channel = 9, track_index = 1\<rparr>,
      \<lparr>start_tick = 7, end_tick = 10, pitch = 99, velocity = 80, channel = 9, track_index = 1\<rparr>]"
proof -
  have r: "remap_channel_9_notes_in_place
     [\<lparr>start_tick = 0, end_tick = 10, pitch = 35, velocity = 100, channel = 9, track_index = 0\<rparr>,
      \<lparr>start_tick = 0, end_tick = 10, pitch = 35, velocity = 100, channel = 0, track_index = 0\<rparr>,
      \<lparr>start_tick = 5, end_tick = 10, pitch = 40, velocity = 90, channel = 9, track_index = 1\<rparr>,
      \<lparr>start_tick = 7, end_tick = 10, pitch = 99, velocity = 80, channel = 9, track_index = 1\<rparr>]
     [(36, \<lparr>midi_note = 36, name = ''Kick'', category = Some ''kick''\<rparr>),
      (38, \<lparr>midi_note = 38, name = ''Snare'', category = Some ''snare''\<rparr>),
      (42, \<lparr>midi_note = 42, name = ''Closed Hat'', category = Some ''hihat''\<rparr>)] True
   = (2, {99},
     [\<lparr>start_tick = 0, end_tick = 10, pitch = 36, velocity = 100, channel = 9, track_index = 0\<rparr>,
      \<lparr>start_tick = 0, end_tick = 10, pitch = 35, velocity = 100, channel = 0, track_index = 0\<rparr>,
      \<lparr>start_tick = 5, end_tick = 10, pitch = 38, velocity = 90, channel = 9, track_index = 1\<rparr>,
      \<lparr>start_tick = 7, end_tick = 10, pitch = 99, velocity = 80, channel = 9, track_index = 1\<rparr>])"
    by code_simp
  show ?thesis
    using r remap_frame [OF r] by simp
qed

lemma stable_targetsD:
  "stable_targets g \<Longrightarrow> map_of g p = Some t \<Longrightarrow> map_of g t = None \<or> map_of g t = Some t"
proof -
  assume s: "stable_targets g" and m: "map_of g p = Some t"
  have "(p, t) \<in> set g" using m by (rule map_of_SomeD)
  then have "case map_of g t of None \<Rightarrow> True | Some t' \<Rightarrow> t' = t"
    using s by (fastforce simp: stable_targets_def list_all_iff)
  then show ?thesis
    by (cases "map_of g t") simp_all
qed

lemma remap_note_stable:
  "stable_targets g \<Longrightarrow> \<not> remap_changes g (remap_note g n) \<and> remap_note g (remap_note g n) = remap_note g n"
proof (cases "channel n = 9")
  case False
  then show ?thesis by (simp add: remap_changes_def remap_note_def)
next
  case True
  assume s: "stable_targets g"
  show ?thesis
  proof (cases "map_of g (pitch n)")
    case None
    then show ?thesis using True by (simp add: remap_changes_def remap_note_def)
  next
    case (Some t)
    then show ?thesis
      using True stable_targetsD [OF s Some]
      by (auto simp: remap_changes_def remap_note_def)
  qed
qed

text \<open>
  C7 (as amended). When no target pitch of the derived mapping is a source pitch of
  it with another target, a second application of the remap to the result of the
  first changes no note and returns a changed count of zero.
\<close>

theorem remap_twice:
  "stable_targets (build_gm_to_rs rs) \<Longrightarrow>
   remap_channel_9_notes_in_place ns rs keep = (changed1, unmapped1, ns1) \<Longrightarrow>
   remap_channel_9_notes_in_place ns1 rs keep = (changed2, unmapped2, ns2) \<Longrightarrow>
   changed2 = 0 \<and> ns2 = ns1 \<and> map pitch ns2 = map pitch ns1"
proof -
  assume s: "stable_targets (build_gm_to_rs rs)"
    and r1: "remap_channel_9_notes_in_place ns rs keep = (changed1, unmapped1, ns1)"
    and r2: "remap_channel_9_notes_in_place ns1 rs keep = (changed2, unmapped2, ns2)"
  let ?g = "build_gm_to_rs rs"
  have ns1: "ns1 = map (remap_note ?g) ns" using remap_result [OF r1] by simp
  have c2: "changed2 = int (length (filter (remap_changes ?g) ns1))"
    and ns2: "ns2 = map (remap_note ?g) ns1"
    using remap_result [OF r2] by simp_all
  have "filter (remap_changes ?g) ns1 = []"
    unfolding ns1 using remap_note_stable [OF s] by (simp add: filter_empty_conv)
  moreover have "map (remap_note ?g) ns1 = ns1"
    unfolding ns1 using remap_note_stable [OF s] by simp
  ultimately show ?thesis using c2 ns2 by simp
qed


theorem remap_twice_witness:
  "stable_targets (build_gm_to_rs
     [(36, \<lparr>midi_note = 36, name = ''Kick'', category = Some ''kick''\<rparr>),
      (38, \<lparr>midi_note = 38, name = ''Snare'', category = Some ''snare''\<rparr>),
      (42, \<lparr>midi_note = 42, name = ''Closed Hat'', category = Some ''hihat''\<rparr>)]) \<and>
   remap_channel_9_notes_in_place
     [\<lparr>start_tick = 0, end_tick = 10, pitch = 35, velocity = 100, channel = 9, track_index = 0\<rparr>,
      \<lparr>start_tick = 0, end_tick = 10, pitch = 35, velocity = 100, channel = 0, track_index = 0\<rparr>,
      \<lparr>start_tick = 5, end_tick = 10, pitch = 40, velocity = 90, channel = 9, track_index = 1\<rparr>,
      \<lparr>start_tick = 7, end_tick = 10, pitch = 99, velocity = 80, channel = 9, track_index = 1\<rparr>]
     [(36, \<lparr>midi_note = 36, name = ''Kick'', category = Some ''kick''\<rparr>),
      (38, \<lparr>midi_note = 38, name = ''Snare'', category = Some ''snare''\<rparr>),
      (42, \<lparr>midi_note = 42, name = ''Closed Hat'', category = Some ''hihat''\<rparr>)] True
   = (2, {99},
     [\<lparr>start_tick = 0, end_tick = 10, pitch = 36, velocity = 100, channel = 9, track_index = 0\<rparr>,
      \<lparr>start_tick = 0, end_tick = 10, pitch = 35, velocity = 100, channel = 0, track_index = 0\<rparr>,
      \<lparr>start_tick = 5, end_tick = 10, pitch = 38, velocity = 90, channel = 9, track_index = 1\<rparr>,
      \<lparr>start_tick = 7, end_tick = 10, pitch = 99, velocity = 80, channel = 9, track_index = 1\<rparr>]) \<and>
   remap_channel_9_notes_in_place
     [\<lparr>start_tick = 0, end_tick = 10, pitch = 36, velocity = 100, channel = 9, track_index = 0\<rparr>,
      \<lparr>start_tick = 0, end_tick = 10, pitch = 35, velocity = 100, channel = 0, track_index = 0\<rparr>,
      \<lparr>start_tick = 5, end_tick = 10, pitch = 38, velocity = 90, channel = 9, track_index = 1\<rparr>,
      \<lparr>start_tick = 7, end_tick = 10, pitch = 99, velocity = 80, channel = 9, track_index = 1\<rparr>]
     [(36, \<lparr>midi_note = 36, name = ''Kick'', category = Some ''kick''\<rparr>),
      (38, \<lparr>midi_note = 38, name = ''Snare'', category = Some ''snare''\<rparr>),
      (42, \<lparr>midi_note = 42, name = ''Closed Hat'', category = Some ''hihat''\<rparr>)] True
   = (0, {99},
     [\<lparr>start_tick = 0, end_tick = 10, pitch = 36, velocity = 100, channel = 9, track_index = 0\<rparr>,
      \<lparr>start_tick = 0, end_tick = 10, pitch = 35, velocity = 100, channel = 0, track_index = 0\<rparr>,
      \<lparr>start_tick = 5, end_tick = 10, pitch = 38, velocity = 90, channel = 9, track_index = 1\<rparr>,
      \<lparr>start_tick = 7, end_tick = 10, pitch = 99, velocity = 80, channel = 9, track_index = 1\<rparr>])"
proof -
  have s: "stable_targets (build_gm_to_rs
     [(36, \<lparr>midi_note = 36, name = ''Kick'', category = Some ''kick''\<rparr>),
      (38, \<lparr>midi_note = 38, name = ''Snare'', category = Some ''snare''\<rparr>),
      (42, \<lparr>midi_note = 42, name = ''Closed Hat'', category = Some ''hihat''\<rparr>)])"
    by code_simp
  have r1: "remap_channel_9_notes_in_place
     [\<lparr>start_tick = 0, end_tick = 10, pitch = 35, velocity = 100, channel = 9, track_index = 0\<rparr>,
      \<lparr>start_tick = 0, end_tick = 10, pitch = 35, velocity = 100, channel = 0, track_index = 0\<rparr>,
      \<lparr>start_tick = 5, end_tick = 10, pitch = 40, velocity = 90, channel = 9, track_index = 1\<rparr>,
      \<lparr>start_tick = 7, end_tick = 10, pitch = 99, velocity = 80, channel = 9, track_index = 1\<rparr>]
     [(36, \<lparr>midi_note = 36, name = ''Kick'', category = Some ''kick''\<rparr>),
      (38, \<lparr>midi_note = 38, name = ''Snare'', category = Some ''snare''\<rparr>),
      (42, \<lparr>midi_note = 42, name = ''Closed Hat'', category = Some ''hihat''\<rparr>)] True
   = (2, {99},
     [\<lparr>start_tick = 0, end_tick = 10, pitch = 36, velocity = 100, channel = 9, track_index = 0\<rparr>,
      \<lparr>start_tick = 0, end_tick = 10, pitch = 35, velocity = 100, channel = 0, track_index = 0\<rparr>,
      \<lparr>start_tick = 5, end_tick = 10, pitch = 38, velocity = 90, channel = 9, track_index = 1\<rparr>,
      \<lparr>start_tick = 7, end_tick = 10, pitch = 99, velocity = 80, channel = 9, track_index = 1\<rparr>])"
    by code_simp
  have r2: "remap_channel_9_notes_in_place
     [\<lparr>start_tick = 0, end_tick = 10, pitch = 36, velocity = 100, channel = 9, track_index = 0\<rparr>,
      \<lparr>start_tick = 0, end_tick = 10, pitch = 35, velocity = 100, channel = 0, track_index = 0\<rparr>,
      \<lparr>start_tick = 5, end_tick = 10, pitch = 38, velocity = 90, channel = 9, track_index = 1\<rparr>,
      \<lparr>start_tick = 7, end_tick = 10, pitch = 99, velocity = 80, channel = 9, track_index = 1\<rparr>]
     [(36, \<lparr>midi_note = 36, name = ''Kick'', category = Some ''kick''\<rparr>),
      (38, \<lparr>midi_note = 38, name = ''Snare'', category = Some ''snare''\<rparr>),
      (42, \<lparr>midi_note = 42, name = ''Closed Hat'', category = Some ''hihat''\<rparr>)] True
   = (0, {99},
     [\<lparr>start_tick = 0, end_tick = 10, pitch = 36, velocity = 100, channel = 9, track_index = 0\<rparr>,
      \<lparr>start_tick = 0, end_tick = 10, pitch = 35, velocity = 100, channel = 0, track_index = 0\<rparr>,
      \<lparr>start_tick = 5, end_tick = 10, pitch = 38, velocity = 90, channel = 9, track_index = 1\<rparr>,
      \<lparr>start_tick = 7, end_tick = 10, pitch = 99, velocity = 80, channel = 9, track_index = 1\<rparr>])"
    by code_simp
  show ?thesis
    using s r1 r2 remap_twice [OF s r1 r2] by simp
qed

text \<open>
  C7 as stated fails: with a drumset whose only kick is note 38 and whose only snare
  is note 40, the derived mapping sends 35 to 38 and 38 to 40, so a channel-9 note of
  pitch 35 becomes 38 in the first pass and 40 in the second, which counts one change.
\<close>

theorem remap_twice_counterexample:
  "remap_channel_9_notes_in_place
     [\<lparr>start_tick = 0, end_tick = 10, pitch = 35, velocity = 100, channel = 9, track_index = 0\<rparr>]
     [(38, \<lparr>midi_note = 38, name = ''Kick'', category = Some ''kick''\<rparr>),
      (40, \<lparr>midi_note = 40, name = ''Snare'', category = Some ''snare''\<rparr>)] True
   = (1, {}, [\<lparr>start_tick = 0, end_tick = 10, pitch = 38, velocity = 100, channel = 9, track_index = 0\<rparr>]) \<and>
   remap_channel_9_notes_in_place
     [\<lparr>start_tick = 0, end_tick = 10, pitch = 38, velocity = 100, channel = 9, track_index = 0\<rparr>]
     [(38, \<lparr>midi_note = 38, name = ''Kick'', category = Some ''kick''\<rparr>),
      (40, \<lparr>midi_note = 40, name = ''Snare'', category = Some ''snare''\<rparr>)] True
   = (1, {}, [\<lparr>start_tick = 0, end_tick = 10, pitch = 40, velocity = 100, channel = 9, track_index = 0\<rparr>]) \<and>
   build_gm_to_rs
     [(38, \<lparr>midi_note = 38, name = ''Kick'', category = Some ''kick''\<rparr>),
      (40, \<lparr>midi_note = 40, name = ''Snare'', category = Some ''snare''\<rparr>)]
   = [(35, 38), (36, 38), (38, 40), (40, 40)]"
  by code_simp

text \<open>
  A sufficient condition on the drumset for \<open>stable_targets\<close>: when every drum
  filed under a category that sits on a note of the source vocabulary has that note's
  category, the derived mapping leaves its targets alone (\<open>consistent_drumset_stable\<close>,
  the last lemma of this group).
\<close>

lemma map_of_setdefault_append:
  "map_of (setdefault_append k v d) k' =
     (if k' = k then Some ((case map_of d k of None \<Rightarrow> [] | Some vs \<Rightarrow> vs) @ [v])
      else map_of d k')"
  by (auto simp: setdefault_append_def update_conv' map_add_def split: option.splits)

lemma category_step_inv:
  assumes inv: "cat_inv S acc" and item: "item \<in> S"
  shows "cat_inv S (category_step acc item)"
  unfolding cat_inv_def
proof (intro allI impI)
  fix cat ns n
  assume look: "map_of (category_step acc item) cat = Some ns" and n: "n \<in> set ns"
  obtain k info where it: "item = (k, info)" by (cases item)
  let ?cat = "case category info of None \<Rightarrow> [] | Some c \<Rightarrow> c"
  show "\<exists>info. (n, info) \<in> S \<and> eligible info cat"
  proof (cases "name info = [] \<or> ?cat = [] \<or> ?cat = ''empty'' \<or> norm (name info) = ''empty slot''")
    case True
    then have "category_step acc item = acc"
      by (auto simp: category_step_def it Let_def)
    then show ?thesis using inv look n by (auto simp: cat_inv_def)
  next
    case False
    then have st: "category_step acc item = setdefault_append ?cat k acc"
      by (auto simp: category_step_def it Let_def)
    have el: "eligible info ?cat"
      using False by (auto simp: eligible_def split: option.splits)
    show ?thesis
    proof (cases "cat = ?cat")
      case False
      then have "map_of acc cat = Some ns"
        using look by (simp add: st map_of_setdefault_append)
      then show ?thesis using inv n by (auto simp: cat_inv_def)
    next
      case True
      then have ns: "ns = (case map_of acc ?cat of None \<Rightarrow> [] | Some vs \<Rightarrow> vs) @ [k]"
        using look by (simp add: st map_of_setdefault_append)
      show ?thesis
      proof (cases "n = k")
        case True
        then show ?thesis using item el \<open>cat = ?cat\<close> by (auto simp: it)
      next
        case False
        then obtain vs where "map_of acc ?cat = Some vs" "n \<in> set vs"
          using n ns by (auto split: option.splits)
        then show ?thesis using inv \<open>cat = ?cat\<close> by (auto simp: cat_inv_def)
      qed
    qed
  qed
qed

lemma foldl_category_step_inv:
  "cat_inv S acc \<Longrightarrow> set rs \<subseteq> S \<Longrightarrow> cat_inv S (foldl category_step acc rs)"
  by (induction rs arbitrary: acc) (simp_all add: category_step_inv)

lemma category_notes_eligible:
  assumes "map_of (build_rs_category_to_notes rs) cat = Some ns" and "n \<in> set ns"
  shows "\<exists>info. (n, info) \<in> set rs \<and> eligible info cat"
proof -
  have "map_of (build_rs_category_to_notes rs) cat
        = map_option sort (map_of (foldl category_step [] rs) cat)"
    by (simp add: build_rs_category_to_notes_def map_of_map)
  then have "map_option sort (map_of (foldl category_step [] rs) cat) = Some ns"
    using assms(1) by simp
  then obtain ns0 where ns0: "map_of (foldl category_step [] rs) cat = Some ns0" "ns = sort ns0"
    by (cases "map_of (foldl category_step [] rs) cat") auto
  have "cat_inv (set rs) (foldl category_step [] rs)"
    by (rule foldl_category_step_inv) (simp_all add: cat_inv_def)
  then show ?thesis
    using ns0 assms(2) by (auto simp: cat_inv_def)
qed

lemma preferred_in_notes:
  "preferred_rs_note cat c2n = Some t \<Longrightarrow> \<exists>ns. map_of c2n cat = Some ns \<and> t \<in> set ns"
  by (auto simp: preferred_rs_note_def split: option.splits list.splits if_splits)


lemma foldl_pref_inv:
  "map_of (foldl (pref_step c2n) d cats) cat = Some t \<Longrightarrow>
   map_of d cat = Some t \<or> preferred_rs_note cat c2n = Some t"
proof (induction cats arbitrary: d)
  case Nil
  then show ?case by simp
next
  case (Cons c cats)
  have "map_of (pref_step c2n d c) cat = Some t \<or> preferred_rs_note cat c2n = Some t"
    using Cons.IH [of "pref_step c2n d c"] Cons.prems by simp
  then show ?case
    by (auto simp: pref_step_def update_conv' split: option.splits if_splits)
qed

lemma foldl_gm_inv:
  "map_of (foldl (gm_step c2p) d gms) p = Some t \<Longrightarrow>
   map_of d p = Some t \<or> (\<exists>cat. (p, cat) \<in> set gms \<and> map_of c2p cat = Some t)"
proof (induction gms arbitrary: d)
  case Nil
  then show ?case by simp
next
  case (Cons g gms)
  obtain gn gc where g: "g = (gn, gc)" by (cases g)
  have "map_of (gm_step c2p d g) p = Some t \<or>
        (\<exists>cat. (p, cat) \<in> set gms \<and> map_of c2p cat = Some t)"
    using Cons.IH [of "gm_step c2p d g"] Cons.prems by simp
  then show ?case
    by (auto simp: gm_step_def g update_conv' split: option.splits if_splits)
qed

lemma foldl_gm_distinct:
  "distinct (map fst d) \<Longrightarrow> distinct (map fst (foldl (gm_step c2p) d gms))"
proof (induction gms arbitrary: d)
  case Nil
  then show ?case by simp
next
  case (Cons g gms)
  have "distinct (map fst (gm_step c2p d g))"
    using Cons.prems by (auto simp: gm_step_def distinct_update split: option.splits prod.splits)
  then show ?case using Cons.IH by simp
qed

lemma build_gm_to_rs_eq:
  "build_gm_to_rs rs =
     foldl (gm_step (foldl (pref_step (build_rs_category_to_notes rs)) []
                       (map fst (build_rs_category_to_notes rs))))
           [] GM_NOTE_TO_CATEGORY"
proof -
  have a: "(\<lambda>d cat. case preferred_rs_note cat c2n of Some p \<Rightarrow> AList.update cat p d | None \<Rightarrow> d)
           = pref_step c2n" for c2n
    by (simp add: pref_step_def fun_eq_iff)
  have b: "(\<lambda>d (gm_note, cat). case map_of c2p cat of
                                   Some rs_note \<Rightarrow> AList.update gm_note rs_note d
                                 | None \<Rightarrow> d) = gm_step c2p" for c2p
    by (simp add: gm_step_def fun_eq_iff)
  show ?thesis
    by (simp add: build_gm_to_rs_def Let_def a b)
qed

lemma gm_to_rs_target:
  assumes "map_of (build_gm_to_rs rs) p = Some t"
  shows "\<exists>cat info. (p, cat) \<in> set GM_NOTE_TO_CATEGORY \<and> (t, info) \<in> set rs \<and>
           eligible info cat \<and>
           preferred_rs_note cat (build_rs_category_to_notes rs) = Some t"
proof -
  let ?c2n = "build_rs_category_to_notes rs"
  let ?c2p = "foldl (pref_step ?c2n) [] (map fst ?c2n)"
  obtain cat where cat: "(p, cat) \<in> set GM_NOTE_TO_CATEGORY" "map_of ?c2p cat = Some t"
    using foldl_gm_inv [of ?c2p "[]" GM_NOTE_TO_CATEGORY p t] assms
    by (auto simp: build_gm_to_rs_eq)
  have pr: "preferred_rs_note cat ?c2n = Some t"
    using foldl_pref_inv [of ?c2n "[]" "map fst ?c2n" cat t] cat(2) by simp
  obtain ns where ns: "map_of ?c2n cat = Some ns" "t \<in> set ns"
    using preferred_in_notes [OF pr] by blast
  obtain info where info: "(t, info) \<in> set rs" "eligible info cat"
    using category_notes_eligible [OF ns] by blast
  show ?thesis
    by (rule exI [of _ cat], rule exI [of _ info]) (intro conjI cat(1) info pr)
qed

lemma consistent_drumset_stable:
  assumes "gm_consistent rs"
  shows "stable_targets (build_gm_to_rs rs)"
  unfolding stable_targets_def list_all_iff
proof (intro ballI)
  fix x
  assume x: "x \<in> set (build_gm_to_rs rs)"
  obtain p t where xp: "x = (p, t)" by (cases x)
  let ?g = "build_gm_to_rs rs"
  let ?c2n = "build_rs_category_to_notes rs"
  have d: "distinct (map fst ?g)"
    unfolding build_gm_to_rs_eq by (rule foldl_gm_distinct) simp
  have pt: "map_of ?g p = Some t"
    using x d by (simp add: xp)
  obtain cat info where cat: "(p, cat) \<in> set GM_NOTE_TO_CATEGORY" "(t, info) \<in> set rs"
      "eligible info cat" "preferred_rs_note cat ?c2n = Some t"
    using gm_to_rs_target [OF pt] by blast
  have "case map_of ?g t of None \<Rightarrow> True | Some t' \<Rightarrow> t' = t"
  proof (cases "map_of ?g t")
    case None
    then show ?thesis by simp
  next
    case (Some t')
    obtain cat' info' where c': "(t, cat') \<in> set GM_NOTE_TO_CATEGORY"
      "preferred_rs_note cat' ?c2n = Some t'"
      using gm_to_rs_target [OF Some] by blast
    have ci: "category info = Some cat" using cat(3) by (simp add: eligible_def)
    have "case (t, info) of (k, info) \<Rightarrow>
            (case category info of None \<Rightarrow> True
             | Some c \<Rightarrow> eligible info c \<longrightarrow>
                 list_all (\<lambda>(g, c'). g = k \<longrightarrow> c' = c) GM_NOTE_TO_CATEGORY)"
      using assms cat(2) unfolding gm_consistent_def list_all_iff by blast
    then have "list_all (\<lambda>(g, c'). g = t \<longrightarrow> c' = cat) GM_NOTE_TO_CATEGORY"
      using ci cat(3) by simp
    then have "case (t, cat') of (g, c') \<Rightarrow> g = t \<longrightarrow> c' = cat"
      using c'(1) unfolding list_all_iff by blast
    then have "cat' = cat" by simp
    then have "t' = t" using c'(2) cat(4) by simp
    then show ?thesis using Some by simp
  qed
  then show "case x of (p, t) \<Rightarrow> (case map_of ?g t of None \<Rightarrow> True | Some t' \<Rightarrow> t' = t)"
    by (simp add: xp)
qed

section \<open>Writing a file: what is written again\<close>

lemma fix_end_of_track_prefix:
  "list_all (\<lambda>m. kind m \<noteq> EndOfTrack) xs \<Longrightarrow>
   fix_end_of_track 0 (xs @ ys) = xs @ fix_end_of_track 0 ys"
  by (induction xs) simp_all







lemma fix_end_of_track_nonneg:
  "0 \<le> a \<Longrightarrow> list_all (\<lambda>m. 0 \<le> time m \<and> \<not> is_realtime (kind m)) xs \<Longrightarrow>
   list_all (\<lambda>m. 0 \<le> time m \<and> \<not> is_realtime (kind m)) (fix_end_of_track a xs)"
  by (induction xs arbitrary: a) simp_all

lemma write_track_total:
  "list_all (\<lambda>m. 0 \<le> time m \<and> \<not> is_realtime (kind m)) t \<Longrightarrow>
   write_track t = Inr (fix_end_of_track 0 t)"
  using fix_end_of_track_nonneg [of 0 t]
  by (auto simp: write_track_def Let_def list_all_iff list_ex_iff)


lemma fix_end_of_track_head:
  "kind m \<noteq> EndOfTrack \<Longrightarrow> fix_end_of_track 0 (m # xs) = m # fix_end_of_track 0 xs"
  by simp

section \<open>Initialization events: repeated runs and the tempo\<close>








lemma bpm2tempo_range:
  assumes "30 \<le> bpm" "bpm \<le> 300"
  shows "\<exists>tempo. bpm2tempo bpm = Inr tempo \<and> 0 \<le> tempo \<and> tempo \<le> 16777215"
proof -
  have pos: "0 < bpm" using assms by simp
  have lo: "0 \<le> 60000000 div bpm"
    using pos by (simp add: pos_imp_zdiv_nonneg_iff)
  have "60000000 div bpm \<le> 60000000 div 30"
    using assms by (intro zdiv_mono2) simp_all
  then have hi: "60000000 div bpm \<le> 2000000" by simp
  have "round_half_even 60000000 bpm = 60000000 div bpm \<or>
        round_half_even 60000000 bpm = 60000000 div bpm + 1"
    using pos by (auto simp: round_half_even_def Let_def)
  then show ?thesis
    using lo hi pos by (auto simp: bpm2tempo_def)
qed



























text \<open>
  The test for an existing event reads the delta time of a message, not its tick: a
  \<open>set_tempo\<close> at tick 480 with delta time 0 counts as present, and no tempo is
  inserted although the track has no \<open>set_tempo\<close> at tick 0.
\<close>

lemma inject_tempo_delta_time_example:
  "inject_init_events
     \<lparr>mf_ticks_per_beat = 480,
      tracks = [[\<lparr>time = 0, kind = NoteOn 0 60 100\<rparr>,
                 \<lparr>time = 480, kind = NoteOff 0 60 0\<rparr>,
                 \<lparr>time = 0, kind = SetTempo 500000\<rparr>,
                 \<lparr>time = 0, kind = EndOfTrack\<rparr>]]\<rparr> 120 1 9 (Some 9)
   = Inr \<lparr>mf_ticks_per_beat = 480,
      tracks = [[\<lparr>time = 0, kind = ProgramChange 0 1\<rparr>,
                 \<lparr>time = 0, kind = ProgramChange 1 2\<rparr>,
                 \<lparr>time = 0, kind = ProgramChange 2 3\<rparr>,
                 \<lparr>time = 0, kind = ProgramChange 3 4\<rparr>,
                 \<lparr>time = 0, kind = ProgramChange 4 5\<rparr>,
                 \<lparr>time = 0, kind = ProgramChange 5 6\<rparr>,
                 \<lparr>time = 0, kind = ProgramChange 6 7\<rparr>,
                 \<lparr>time = 0, kind = ProgramChange 7 8\<rparr>,
                 \<lparr>time = 0, kind = ProgramChange 8 9\<rparr>,
                 \<lparr>time = 0, kind = ProgramChange 9 0\<rparr>,
                 \<lparr>time = 0, kind = NoteOn 0 60 100\<rparr>,
                 \<lparr>time = 480, kind = NoteOff 0 60 0\<rparr>,
                 \<lparr>time = 0, kind = SetTempo 500000\<rparr>,
                 \<lparr>time = 0, kind = EndOfTrack\<rparr>]]\<rparr>"
  by code_simp

section \<open>Encoding: warnings and the order of events\<close>

lemma note_events_pairs: "note_events ns = Inr evs \<Longrightarrow> evs = note_pairs ns"
proof (induction ns arbitrary: evs)
  case Nil
  then show ?case by (simp add: note_pairs_def)
next
  case (Cons n ns)
  then show ?case
    by (auto simp: note_pairs_def mk_note_on_def mk_note_off_def split: sum.splits if_splits)
qed

lemma note_events_total:
  "list_all (\<lambda>n. valid_channel (channel n) \<and> data_byte (pitch n) \<and> data_byte (velocity n)) ns
   \<Longrightarrow> note_events ns = Inr (note_pairs ns)"
  by (induction ns) (simp_all add: note_pairs_def mk_note_on_def mk_note_off_def data_byte_def)

lemma program_events_total:
  "list_all (\<lambda>(ch, program). valid_channel ch \<and> data_byte program) ids
   \<Longrightarrow> \<exists>evs. program_events nz ids = Inr evs"
proof (induction ids)
  case Nil
  show ?case by simp
next
  case (Cons a ids)
  obtain ch pr where a: "a = (ch, pr)" by (cases a)
  from Cons obtain evs where "program_events nz ids = Inr evs" by auto
  then show ?case
    using Cons.prems by (auto simp: a mk_program_change_def)
qed

lemma note_events_valid: "note_events ns = Inr evs \<Longrightarrow> list_all valid_note ns"
proof (induction ns arbitrary: evs)
  case Nil
  then show ?case by simp
next
  case (Cons n ns)
  then show ?case
    by (auto simp: valid_note_def mk_note_on_def mk_note_off_def split: sum.splits if_splits)
qed

lemma program_events_kinds:
  "program_events nz ids = Inr evs \<Longrightarrow> e \<in> set evs \<Longrightarrow>
   fst e = 0 \<and> \<not> is_note (snd e) \<and> snd e \<noteq> EndOfTrack \<and> \<not> is_realtime (snd e)"
proof (induction ids arbitrary: evs)
  case Nil
  then show ?case by simp
next
  case (Cons a ids)
  obtain ch pr where a: "a = (ch, pr)" by (cases a)
  show ?case
    using Cons
    by (auto simp: a mk_program_change_def is_note_def split: if_splits sum.splits)
qed

lemma program_events_iff:
  "(\<exists>evs. program_events nz ids = Inr evs) \<longleftrightarrow>
   list_all (\<lambda>(ch, program). (nz \<and> 9 < ch) \<or> (valid_channel ch \<and> data_byte program)) ids"
proof (induction ids)
  case Nil
  show ?case by simp
next
  case (Cons a ids)
  obtain ch pr where a: "a = (ch, pr)" by (cases a)
  show ?case
    using Cons by (auto simp: a mk_program_change_def split: sum.splits)
qed

lemma tempo_messages_total:
  "\<exists>ms. tempo_messages bpm wt = Inr ms \<and>
        (ms = [] \<or> (\<exists>t. ms = [\<lparr>time = 0, kind = SetTempo t\<rparr>]))"
proof -
  have "30 \<le> max 30 (min 300 bpm)" "max 30 (min 300 bpm) \<le> 300" by simp_all
  from bpm2tempo_range [OF this]
  show ?thesis
    by (auto simp: tempo_messages_def mk_set_tempo_def)
qed

lemma tempo_messages_shape:
  "tempo_messages bpm wt = Inr ms \<Longrightarrow> ms = [] \<or> (\<exists>t. ms = [\<lparr>time = 0, kind = SetTempo t\<rparr>])"
  using tempo_messages_total [of bpm wt] by auto

lemma kind_to_deltas: "map kind (to_deltas l evs) = map snd evs"
  by (induction l evs rule: to_deltas.induct) simp_all

lemma export_filter_cases:
  "export_filter ns nz dr =
     (if nz \<and> (\<exists>n\<in>set ns. 9 < channel n)
      then (if dr
            then ([ChannelsOver9 (sort (remdups (filter (\<lambda>c. 9 < c) (map channel ns)))),
                   DroppedOver9], filter (\<lambda>n. channel n \<le> 9) ns)
            else ([ChannelsOver9 (sort (remdups (filter (\<lambda>c. 9 < c) (map channel ns))))], ns))
      else ([], ns))"
proof -
  have "sort (remdups (filter (\<lambda>c. 9 < c) (map channel ns))) \<noteq> [] \<longleftrightarrow> (\<exists>n\<in>set ns. 9 < channel n)"
  proof -
    have "sort (remdups (filter (\<lambda>c. 9 < c) (map channel ns))) \<noteq> [] \<longleftrightarrow>
          set (sort (remdups (filter (\<lambda>c. 9 < c) (map channel ns)))) \<noteq> {}"
      by (simp only: set_empty)
    also have "\<dots> \<longleftrightarrow> (\<exists>n\<in>set ns. 9 < channel n)"
      by auto
    finally show ?thesis .
  qed
  then show ?thesis
    by (simp add: export_filter_def Let_def)
qed


lemma length_abs_ticks: "length (abs_ticks b trk) = length trk"
  by (induction trk arbitrary: b) simp_all

lemma abs_ticks_append:
  "abs_ticks b (xs @ ys) = abs_ticks b xs @ abs_ticks (b + sum_list (map time xs)) ys"
  by (induction xs arbitrary: b) (simp_all add: add.assoc)

lemma abs_ticks_lower: "\<forall>m\<in>set trk. 0 \<le> time m \<Longrightarrow> t \<in> set (abs_ticks b trk) \<Longrightarrow> b \<le> t"
proof (induction trk arbitrary: b)
  case Nil
  then show ?case by simp
next
  case (Cons m trk)
  have "0 \<le> time m" using Cons.prems(1) by simp
  moreover have "t = b + time m \<or> t \<in> set (abs_ticks (b + time m) trk)"
    using Cons.prems(2) by simp
  moreover have "t \<in> set (abs_ticks (b + time m) trk) \<Longrightarrow> b + time m \<le> t"
    using Cons.IH [of "b + time m"] Cons.prems(1) by simp
  ultimately show ?case by auto
qed

lemma abs_ticks_sorted: "\<forall>m\<in>set trk. 0 \<le> time m \<Longrightarrow> sorted (abs_ticks b trk)"
proof (induction trk arbitrary: b)
  case Nil
  then show ?case by simp
next
  case (Cons m trk)
  have "sorted (abs_ticks (b + time m) trk)"
    using Cons by simp
  moreover have "\<forall>t\<in>set (abs_ticks (b + time m) trk). b + time m \<le> t"
    using abs_ticks_lower [of trk _ "b + time m"] Cons.prems by simp
  ultimately show ?case by simp
qed

lemma to_deltas_nonneg: "m \<in> set (to_deltas l evs) \<Longrightarrow> 0 \<le> time m"
  by (induction l evs rule: to_deltas.induct) auto

lemma to_deltas_abs:
  "sorted (map fst evs) \<Longrightarrow> \<forall>e\<in>set evs. l \<le> fst e \<Longrightarrow>
   abs_ticks b (to_deltas l evs) = map (\<lambda>e. fst e + (b - l)) evs"
proof (induction evs arbitrary: b l)
  case Nil
  then show ?case by simp
next
  case (Cons e evs)
  obtain t k where e: "e = (t, k)" by (cases e)
  have lt: "l \<le> t" using Cons.prems(2) by (simp add: e)
  have s: "sorted (map fst evs)" and ge: "\<forall>x\<in>set evs. t \<le> fst x"
    using Cons.prems(1) by (auto simp: e)
  have "abs_ticks (b + (t - l)) (to_deltas t evs) = map (\<lambda>x. fst x + (b + (t - l) - t)) evs"
    by (rule Cons.IH [OF s ge])
  then show ?case
    using lt by (simp add: e max_def)
qed

lemma to_deltas_abs0:
  assumes "sorted (map fst evs)"
  shows "\<exists>c. 0 \<le> c \<and> ((\<forall>e\<in>set evs. 0 \<le> fst e) \<longrightarrow> c = 0) \<and>
             abs_ticks 0 (to_deltas 0 evs) = map (\<lambda>e. fst e + c) evs"
proof (cases evs)
  case Nil
  then show ?thesis by auto
next
  case (Cons e rest)
  obtain t k where e: "e = (t, k)" by (cases e)
  have s: "sorted (map fst rest)" and ge: "\<forall>x\<in>set rest. t \<le> fst x"
    using assms by (auto simp: Cons e)
  show ?thesis
  proof (cases "0 \<le> t")
    case True
    then have "\<forall>x\<in>set evs. 0 \<le> fst x"
      using ge by (auto simp: Cons e)
    then have "abs_ticks 0 (to_deltas 0 evs) = map (\<lambda>x. fst x + (0 - 0)) evs"
      using to_deltas_abs [OF assms, of 0 0] by blast
    then show ?thesis by auto
  next
    case False
    have "abs_ticks 0 (to_deltas t rest) = map (\<lambda>x. fst x + (0 - t)) rest"
      by (rule to_deltas_abs [OF s ge])
    then have "abs_ticks 0 (to_deltas 0 evs) = map (\<lambda>x. fst x + (- t)) evs"
      using False by (simp add: Cons e max_def)
    moreover have "\<not> (\<forall>x\<in>set evs. 0 \<le> fst x)"
      using False by (auto simp: Cons e)
    ultimately show ?thesis
      using False by (intro exI [of _ "- t"]) auto
  qed
qed

lemma key_le_fst: "event_sort_key x \<le> event_sort_key y \<Longrightarrow> fst x \<le> fst y"
  by (cases x; cases y) (auto simp: event_sort_key_def less_eq_prod_def)

lemma key_le_order:
  "event_sort_key x \<le> event_sort_key y \<Longrightarrow>
   \<not> (fst x = fst y \<and> is_note_on (snd x) \<and> is_note_off (snd y))"
  by (cases x; cases y; cases "snd x"; cases "snd y")
     (auto simp: event_sort_key_def less_eq_prod_def)

lemma sorted_events_keys:
  "sorted_wrt (\<lambda>x y. event_sort_key x \<le> event_sort_key y) (sort_key event_sort_key evs)"
  using sorted_sort_key [of event_sort_key evs] by (simp add: sorted_wrt_map)

lemma sorted_events_ticks: "sorted (map fst (sort_key event_sort_key evs))"
proof -
  have "sorted_wrt (\<lambda>x y. fst x \<le> fst y) (sort_key event_sort_key evs)"
    by (rule sorted_wrt_mono_rel [OF _ sorted_events_keys]) (rule key_le_fst)
  then show ?thesis by (simp add: sorted_wrt_map)
qed


lemma timeline_ticks_sorted:
  assumes "pre = [] \<or> (\<exists>t. pre = [\<lparr>time = 0, kind = SetTempo t\<rparr>])"
  shows "sorted (map fst (timeline (pre @ to_deltas 0 evs @ [\<lparr>time = 0, kind = EndOfTrack\<rparr>])))"
proof -
  let ?trk = "pre @ to_deltas 0 evs @ [\<lparr>time = 0, kind = EndOfTrack\<rparr>]"
  have "\<forall>m\<in>set ?trk. 0 \<le> time m"
    using assms to_deltas_nonneg [of _ 0 evs] by auto
  then have "sorted (abs_ticks 0 ?trk)" by (rule abs_ticks_sorted)
  moreover have "map fst (timeline ?trk) = abs_ticks 0 ?trk"
    unfolding timeline_def by (rule map_fst_zip) (simp add: length_abs_ticks)
  ultimately show ?thesis by simp
qed

lemma timeline_shape:
  assumes "pre = [] \<or> (\<exists>t. pre = [\<lparr>time = 0, kind = SetTempo t\<rparr>])"
    and "sorted (map fst evs)"
  shows "\<exists>c T. 0 \<le> c \<and> ((\<forall>e\<in>set evs. 0 \<le> fst e) \<longrightarrow> c = 0) \<and>
           timeline (pre @ to_deltas 0 evs @ [\<lparr>time = 0, kind = EndOfTrack\<rparr>])
             = map (\<lambda>m. (0, kind m)) pre @ map (\<lambda>e. (fst e + c, snd e)) evs @ [(T, EndOfTrack)]"
proof -
  obtain c where c: "0 \<le> c" "(\<forall>e\<in>set evs. 0 \<le> fst e) \<longrightarrow> c = 0"
    and a: "abs_ticks 0 (to_deltas 0 evs) = map (\<lambda>e. fst e + c) evs"
    using to_deltas_abs0 [OF assms(2)] by blast
  let ?T = "sum_list (map time (to_deltas 0 evs))"
  have p: "sum_list (map time pre) = 0" "abs_ticks 0 pre = map (\<lambda>m. 0) pre"
    using assms(1) by auto
  have "abs_ticks 0 (pre @ to_deltas 0 evs @ [\<lparr>time = 0, kind = EndOfTrack\<rparr>])
        = map (\<lambda>m. 0) pre @ map (\<lambda>e. fst e + c) evs @ [?T]"
    by (simp add: abs_ticks_append p a)
  moreover have "map kind (pre @ to_deltas 0 evs @ [\<lparr>time = 0, kind = EndOfTrack\<rparr>])
        = map kind pre @ map snd evs @ [EndOfTrack]"
    by (simp add: kind_to_deltas)
  ultimately have "timeline (pre @ to_deltas 0 evs @ [\<lparr>time = 0, kind = EndOfTrack\<rparr>])
        = zip (map (\<lambda>m. 0) pre @ map (\<lambda>e. fst e + c) evs @ [?T])
              (map kind pre @ map snd evs @ [EndOfTrack])"
    by (simp add: timeline_def)
  also have "\<dots> = map (\<lambda>m. (0, kind m)) pre @ map (\<lambda>e. (fst e + c, snd e)) evs @ [(?T, EndOfTrack)]"
    by (simp add: zip_map_map zip_same_conv_map)
  finally show ?thesis using c by blast
qed

lemma shifted_order:
  "sorted_wrt (\<lambda>x y. \<not> (fst x = fst y \<and> is_note_on (snd x) \<and> is_note_off (snd y)))
     (map (\<lambda>e. (fst e + c, snd e)) (sort_key event_sort_key evs))"
proof -
  have "sorted_wrt (\<lambda>x y. \<not> (fst x + c = fst y + c \<and> is_note_on (snd x) \<and> is_note_off (snd y)))
          (sort_key event_sort_key evs)"
    by (rule sorted_wrt_mono_rel [OF _ sorted_events_keys]) (use key_le_order in auto)
  then show ?thesis by (simp add: sorted_wrt_map)
qed

lemma note_pairs_kinds: "e \<in> set (note_pairs ns) \<Longrightarrow> snd e \<noteq> EndOfTrack \<and> \<not> is_realtime (snd e)"
  by (auto simp: note_pairs_def)

lemma built_track_written:
  assumes "pre = [] \<or> (\<exists>t. pre = [\<lparr>time = 0, kind = SetTempo t\<rparr>])"
    and "\<forall>e\<in>set evs. snd e \<noteq> EndOfTrack \<and> \<not> is_realtime (snd e)"
  shows "write_track (pre @ to_deltas 0 evs @ [\<lparr>time = 0, kind = EndOfTrack\<rparr>])
         = Inr (pre @ to_deltas 0 evs @ [\<lparr>time = 0, kind = EndOfTrack\<rparr>])"
proof -
  let ?body = "pre @ to_deltas 0 evs"
  have kk: "\<forall>k\<in>set (map kind (to_deltas 0 evs)). k \<noteq> EndOfTrack \<and> \<not> is_realtime k"
    unfolding kind_to_deltas using assms(2) by auto
  then have k: "list_all (\<lambda>m. kind m \<noteq> EndOfTrack) ?body"
    using assms(1) by (auto simp: list_all_iff)
  have f: "fix_end_of_track 0 (?body @ [\<lparr>time = 0, kind = EndOfTrack\<rparr>])
           = ?body @ [\<lparr>time = 0, kind = EndOfTrack\<rparr>]"
    using fix_end_of_track_prefix [OF k, of "[\<lparr>time = 0, kind = EndOfTrack\<rparr>]"] by simp
  have n: "list_all (\<lambda>m. 0 \<le> time m \<and> \<not> is_realtime (kind m))
             (?body @ [\<lparr>time = 0, kind = EndOfTrack\<rparr>])"
    using assms(1) to_deltas_nonneg [of _ 0 evs] kk by (auto simp: list_all_iff)
  show ?thesis
    using write_track_total [OF n] f by simp
qed

lemma built_file_saved:
  assumes "pre = [] \<or> (\<exists>t. pre = [\<lparr>time = 0, kind = SetTempo t\<rparr>])"
    and "\<forall>e\<in>set evs. snd e \<noteq> EndOfTrack \<and> \<not> is_realtime (snd e)"
  shows "midi_save \<lparr>mf_ticks_per_beat = tpb,
                    tracks = [pre @ to_deltas 0 evs @ [\<lparr>time = 0, kind = EndOfTrack\<rparr>]]\<rparr>
         = (if int16 tpb
            then Inr \<lparr>mf_ticks_per_beat = tpb,
                      tracks = [pre @ to_deltas 0 evs @ [\<lparr>time = 0, kind = EndOfTrack\<rparr>]]\<rparr>
            else Inl StructError)"
  using built_track_written [OF assms]
  by (simp add: midi_save_def int16_def)


lemma save_result:
  assumes "save_project_to_midi p nz dr fp wt = Inr (ws, mf)"
  shows "\<exists>pre pcs.
           (pre = [] \<or> (\<exists>t. pre = [\<lparr>time = 0, kind = SetTempo t\<rparr>])) \<and>
           (\<forall>e\<in>set pcs. fst e = 0 \<and> \<not> is_note (snd e)) \<and>
           ws = fst (export_filter (notes p) nz dr) \<and>
           tracks mf =
             [pre @ to_deltas 0 (sort_key event_sort_key
                                   (pcs @ note_pairs (snd (export_filter (notes p) nz dr))))
              @ [\<lparr>time = 0, kind = EndOfTrack\<rparr>]]"
proof -
  obtain ws0 ns where ef: "export_filter (notes p) nz dr = (ws0, ns)"
    by (cases "export_filter (notes p) nz dr")
  obtain pre pcs nevs where pre: "tempo_messages (tempo_bpm p) wt = Inr pre"
    and pcs: "(if fp then program_events nz (sort (channel_instrument_id p)) else Inr []) = Inr pcs"
    and nevs: "note_events ns = Inr nevs"
    and ws: "ws = ws0"
    and sv: "midi_save \<lparr>mf_ticks_per_beat = ticks_per_beat p,
                         tracks = [pre @ to_deltas 0 (sort_key event_sort_key (pcs @ nevs))
                                   @ [\<lparr>time = 0, kind = EndOfTrack\<rparr>]]\<rparr> = Inr mf"
    using assms by (auto simp: save_project_to_midi_def ef split: sum.splits)
  have 1: "pre = [] \<or> (\<exists>t. pre = [\<lparr>time = 0, kind = SetTempo t\<rparr>])"
    using tempo_messages_shape [OF pre] .
  have 2: "\<forall>e\<in>set pcs. fst e = 0 \<and> \<not> is_note (snd e) \<and> snd e \<noteq> EndOfTrack \<and> \<not> is_realtime (snd e)"
  proof (cases fp)
    case True
    then show ?thesis using pcs program_events_kinds by auto
  next
    case False
    then show ?thesis using pcs by auto
  qed
  have 3: "nevs = note_pairs ns" using note_events_pairs [OF nevs] .
  have 4: "\<forall>e\<in>set (sort_key event_sort_key (pcs @ nevs)). snd e \<noteq> EndOfTrack \<and> \<not> is_realtime (snd e)"
    using 2 note_pairs_kinds by (auto simp: 3)
  have "tracks mf = [pre @ to_deltas 0 (sort_key event_sort_key (pcs @ nevs))
                     @ [\<lparr>time = 0, kind = EndOfTrack\<rparr>]]"
    using sv built_file_saved [OF 1 4, of "ticks_per_beat p"] by (auto split: if_splits)
  then show ?thesis
    using 1 2 3 ws by (auto simp: ef)
qed

lemma save_returns_iff:
  "(\<exists>ws mf. save_project_to_midi p nz dr fp wt = Inr (ws, mf)) \<longleftrightarrow> encodable p nz dr fp"
proof -
  obtain ws0 ns where ef: "export_filter (notes p) nz dr = (ws0, ns)"
    by (cases "export_filter (notes p) nz dr")
  obtain pre where pre: "tempo_messages (tempo_bpm p) wt = Inr pre"
    using tempo_messages_total [of "tempo_bpm p" wt] by blast
  have pre1: "pre = [] \<or> (\<exists>t. pre = [\<lparr>time = 0, kind = SetTempo t\<rparr>])"
    using tempo_messages_shape [OF pre] .
  let ?ids = "channel_instrument_id p"
  let ?ok = "\<lambda>(ch, program). (nz \<and> 9 < ch) \<or> (valid_channel ch \<and> data_byte program)"
  have ids: "(\<exists>evs. program_events nz (sort ?ids) = Inr evs) \<longleftrightarrow> list_all ?ok ?ids"
    unfolding program_events_iff by (simp add: list_all_iff)
  show ?thesis
  proof
    assume "\<exists>ws mf. save_project_to_midi p nz dr fp wt = Inr (ws, mf)"
    then obtain ws mf where s: "save_project_to_midi p nz dr fp wt = Inr (ws, mf)" by blast
    obtain pcs nevs where
      pcs: "(if fp then program_events nz (sort ?ids) else Inr []) = Inr pcs"
      and nevs: "note_events ns = Inr nevs"
      and sv: "midi_save \<lparr>mf_ticks_per_beat = ticks_per_beat p,
                         tracks = [pre @ to_deltas 0 (sort_key event_sort_key (pcs @ nevs))
                                   @ [\<lparr>time = 0, kind = EndOfTrack\<rparr>]]\<rparr> = Inr mf"
      using s by (auto simp: save_project_to_midi_def ef pre split: sum.splits)
    have a: "int16 (ticks_per_beat p)"
      using sv by (auto simp: midi_save_def split: if_splits)
    have b: "list_all valid_note ns" using note_events_valid [OF nevs] .
    have c: "fp \<Longrightarrow> list_all ?ok ?ids"
      using pcs ids by auto
    show "encodable p nz dr fp"
      using a b c by (simp add: encodable_def ef)
  next
    assume e: "encodable p nz dr fp"
    have a: "int16 (ticks_per_beat p)" and b: "list_all valid_note ns"
      and c: "fp \<Longrightarrow> list_all ?ok ?ids"
      using e by (auto simp: encodable_def ef split: if_splits)
    have nevs: "note_events ns = Inr (note_pairs ns)"
      by (rule note_events_total) (use b in \<open>simp add: valid_note_def list_all_iff\<close>)
    obtain pcs where pcs: "(if fp then program_events nz (sort ?ids) else Inr []) = Inr pcs"
      using c ids by (cases fp) auto
    have k: "\<forall>e\<in>set (sort_key event_sort_key (pcs @ note_pairs ns)). snd e \<noteq> EndOfTrack \<and> \<not> is_realtime (snd e)"
      using pcs program_events_kinds note_pairs_kinds
      by (cases fp) (auto split: if_splits)
    show "\<exists>ws mf. save_project_to_midi p nz dr fp wt = Inr (ws, mf)"
      using a by (simp add: save_project_to_midi_def ef pre pcs nevs
                        built_file_saved [OF pre1 k])
  qed
qed

lemma note_kinds_of_track:
  assumes "pre = [] \<or> (\<exists>t. pre = [\<lparr>time = 0, kind = SetTempo t\<rparr>])"
    and "\<forall>e\<in>set pcs. fst e = 0 \<and> \<not> is_note (snd e)"
  shows "mset (filter is_note (map kind
            (pre @ to_deltas 0 (sort_key event_sort_key (pcs @ note_pairs ns))
             @ [\<lparr>time = 0, kind = EndOfTrack\<rparr>])))
         = mset (map snd (note_pairs ns))"
proof -
  have a: "filter is_note (map kind pre) = []"
    using assms(1) by (auto simp: is_note_def)
  have b: "filter is_note (map snd pcs) = []"
    using assms(2) by (auto simp: filter_empty_conv)
  have c: "filter is_note (map snd (note_pairs ns)) = map snd (note_pairs ns)"
    by (induction ns) (simp_all add: note_pairs_def is_note_def)
  have "mset (filter is_note (map snd (sort_key event_sort_key (pcs @ note_pairs ns))))
        = filter_mset is_note (image_mset snd (mset (sort_key event_sort_key (pcs @ note_pairs ns))))"
    by simp
  also have "\<dots> = mset (filter is_note (map snd (pcs @ note_pairs ns)))"
    by simp
  also have "\<dots> = mset (map snd (note_pairs ns))"
    using b c by simp
  finally show ?thesis
    using a by (simp add: kind_to_deltas is_note_def)
qed


text \<open>
  C8 (as amended). The encoder returns exactly for the projects and flags of
  \<open>encodable\<close>: a time base that fits a signed 16-bit header field, written notes
  with a channel in 0..15 and a pitch and a velocity in 0..127, and, with
  \<open>force_programs_at_start\<close>, written program changes with a channel in 0..15 and an
  instrument id in 0..127.  When it returns, the warnings hold a channel-range
  warning exactly when normalization is requested and a note has a channel above 9,
  and the drop warning exactly when dropping is requested too; they are empty when no
  note is above channel 9; and the note messages of the written track are those of
  the project's notes, without the notes above channel 9 exactly when the drop
  warning is returned.
\<close>

theorem save_warnings:
  "((\<exists>ws mf. save_project_to_midi p nz dr fp wt = Inr (ws, mf)) \<longleftrightarrow> encodable p nz dr fp) \<and>
   (save_project_to_midi p nz dr fp wt = Inr (ws, mf) \<longrightarrow>
      (\<exists>trk.
         tracks mf = [trk] \<and>
         ((\<exists>over. ChannelsOver9 over \<in> set ws) \<longleftrightarrow> nz \<and> (\<exists>n\<in>set (notes p). 9 < channel n)) \<and>
         (DroppedOver9 \<in> set ws \<longleftrightarrow> nz \<and> dr \<and> (\<exists>n\<in>set (notes p). 9 < channel n)) \<and>
         ((\<forall>n\<in>set (notes p). channel n \<le> 9) \<longrightarrow> ws = []) \<and>
         (ws = [] \<or>
          ws = [ChannelsOver9 (sort (remdups (filter (\<lambda>c. 9 < c) (map channel (notes p)))))] \<or>
          ws = [ChannelsOver9 (sort (remdups (filter (\<lambda>c. 9 < c) (map channel (notes p))))),
                DroppedOver9]) \<and>
         mset (filter is_note (map kind trk))
           = mset (map snd (note_pairs (if DroppedOver9 \<in> set ws
                                         then filter (\<lambda>n. channel n \<le> 9) (notes p)
                                         else notes p)))))"
proof -
  have 2: "save_project_to_midi p nz dr fp wt = Inr (ws, mf) \<longrightarrow>
      (\<exists>trk.
         tracks mf = [trk] \<and>
         ((\<exists>over. ChannelsOver9 over \<in> set ws) \<longleftrightarrow> nz \<and> (\<exists>n\<in>set (notes p). 9 < channel n)) \<and>
         (DroppedOver9 \<in> set ws \<longleftrightarrow> nz \<and> dr \<and> (\<exists>n\<in>set (notes p). 9 < channel n)) \<and>
         ((\<forall>n\<in>set (notes p). channel n \<le> 9) \<longrightarrow> ws = []) \<and>
         (ws = [] \<or>
          ws = [ChannelsOver9 (sort (remdups (filter (\<lambda>c. 9 < c) (map channel (notes p)))))] \<or>
          ws = [ChannelsOver9 (sort (remdups (filter (\<lambda>c. 9 < c) (map channel (notes p))))),
                DroppedOver9]) \<and>
         mset (filter is_note (map kind trk))
           = mset (map snd (note_pairs (if DroppedOver9 \<in> set ws
                                         then filter (\<lambda>n. channel n \<le> 9) (notes p)
                                         else notes p))))"
  proof (rule impI)
    assume s: "save_project_to_midi p nz dr fp wt = Inr (ws, mf)"
    let ?ws = "fst (export_filter (notes p) nz dr)"
    let ?ns = "snd (export_filter (notes p) nz dr)"
    obtain pre pcs where pre: "pre = [] \<or> (\<exists>t. pre = [\<lparr>time = 0, kind = SetTempo t\<rparr>])"
      and pcs: "\<forall>e\<in>set pcs. fst e = 0 \<and> \<not> is_note (snd e)"
      and ws: "ws = ?ws"
      and trk: "tracks mf = [pre @ to_deltas 0 (sort_key event_sort_key (pcs @ note_pairs ?ns))
                             @ [\<lparr>time = 0, kind = EndOfTrack\<rparr>]]"
      using save_result [OF s] by blast
    let ?trk = "pre @ to_deltas 0 (sort_key event_sort_key (pcs @ note_pairs ?ns))
                @ [\<lparr>time = 0, kind = EndOfTrack\<rparr>]"
    have m: "mset (filter is_note (map kind ?trk)) = mset (map snd (note_pairs ?ns))"
      by (rule note_kinds_of_track [OF pre pcs])
    have ns: "?ns = (if DroppedOver9 \<in> set ?ws then filter (\<lambda>n. channel n \<le> 9) (notes p) else notes p)"
      by (simp add: export_filter_cases)
    have w1: "(\<exists>over. ChannelsOver9 over \<in> set ?ws) \<longleftrightarrow> nz \<and> (\<exists>n\<in>set (notes p). 9 < channel n)"
      by (simp add: export_filter_cases)
    have w2: "DroppedOver9 \<in> set ?ws \<longleftrightarrow> nz \<and> dr \<and> (\<exists>n\<in>set (notes p). 9 < channel n)"
      by (auto simp: export_filter_cases)
    have w3: "(\<forall>n\<in>set (notes p). channel n \<le> 9) \<longrightarrow> ?ws = []"
    proof
      assume "\<forall>n\<in>set (notes p). channel n \<le> 9"
      then have "\<not> (\<exists>n\<in>set (notes p). 9 < channel n)" by (simp add: not_less)
      then show "?ws = []" by (simp only: export_filter_cases simp_thms if_False fst_conv)
    qed
    have w4: "?ws = [] \<or>
        ?ws = [ChannelsOver9 (sort (remdups (filter (\<lambda>c. 9 < c) (map channel (notes p)))))] \<or>
        ?ws = [ChannelsOver9 (sort (remdups (filter (\<lambda>c. 9 < c) (map channel (notes p))))),
              DroppedOver9]"
      by (simp add: export_filter_cases)
    have m': "mset (filter is_note (map kind ?trk))
         = mset (map snd (note_pairs (if DroppedOver9 \<in> set ?ws
                                       then filter (\<lambda>n. channel n \<le> 9) (notes p)
                                       else notes p)))"
      using m by (subst ns [symmetric])
    show "\<exists>trk.
         tracks mf = [trk] \<and>
         ((\<exists>over. ChannelsOver9 over \<in> set ws) \<longleftrightarrow> nz \<and> (\<exists>n\<in>set (notes p). 9 < channel n)) \<and>
         (DroppedOver9 \<in> set ws \<longleftrightarrow> nz \<and> dr \<and> (\<exists>n\<in>set (notes p). 9 < channel n)) \<and>
         ((\<forall>n\<in>set (notes p). channel n \<le> 9) \<longrightarrow> ws = []) \<and>
         (ws = [] \<or>
          ws = [ChannelsOver9 (sort (remdups (filter (\<lambda>c. 9 < c) (map channel (notes p)))))] \<or>
          ws = [ChannelsOver9 (sort (remdups (filter (\<lambda>c. 9 < c) (map channel (notes p))))),
                DroppedOver9]) \<and>
         mset (filter is_note (map kind trk))
           = mset (map snd (note_pairs (if DroppedOver9 \<in> set ws
                                         then filter (\<lambda>n. channel n \<le> 9) (notes p)
                                         else notes p)))"
      unfolding ws
      by (rule exI [of _ ?trk]) (intro conjI trk w1 w2 w3 w4 m')
  qed
  show ?thesis by (rule conjI [OF save_returns_iff 2])
qed

theorem save_warnings_witness:
  "encodable
     \<lparr>ticks_per_beat = 480,
      notes = [\<lparr>start_tick = 480, end_tick = 960, pitch = 60, velocity = 100, channel = 0, track_index = 0\<rparr>,
               \<lparr>start_tick = 0, end_tick = 480, pitch = 60, velocity = 90, channel = 0, track_index = 0\<rparr>,
               \<lparr>start_tick = 0, end_tick = 240, pitch = 38, velocity = 80, channel = 11, track_index = 1\<rparr>],
      channel_instrument_id = [(11, 5), (0, 7)], tempo_bpm = 500,
      channel_track_name = [], muted_channels = {}\<rparr> True True True \<and>
   save_project_to_midi
     \<lparr>ticks_per_beat = 480,
      notes = [\<lparr>start_tick = 480, end_tick = 960, pitch = 60, velocity = 100, channel = 0, track_index = 0\<rparr>,
               \<lparr>start_tick = 0, end_tick = 480, pitch = 60, velocity = 90, channel = 0, track_index = 0\<rparr>,
               \<lparr>start_tick = 0, end_tick = 240, pitch = 38, velocity = 80, channel = 11, track_index = 1\<rparr>],
      channel_instrument_id = [(11, 5), (0, 7)], tempo_bpm = 500,
      channel_track_name = [], muted_channels = {}\<rparr> True True True True
   = Inr ([ChannelsOver9 [11], DroppedOver9],
          \<lparr>mf_ticks_per_beat = 480,
      tracks = [[\<lparr>time = 0, kind = SetTempo 200000\<rparr>,
                 \<lparr>time = 0, kind = ProgramChange 0 7\<rparr>,
                 \<lparr>time = 0, kind = NoteOn 0 60 90\<rparr>,
                 \<lparr>time = 480, kind = NoteOff 0 60 0\<rparr>,
                 \<lparr>time = 0, kind = NoteOn 0 60 100\<rparr>,
                 \<lparr>time = 480, kind = NoteOff 0 60 0\<rparr>,
                 \<lparr>time = 0, kind = EndOfTrack\<rparr>]]\<rparr>)"
proof -
  have r: "save_project_to_midi
     \<lparr>ticks_per_beat = 480,
      notes = [\<lparr>start_tick = 480, end_tick = 960, pitch = 60, velocity = 100, channel = 0, track_index = 0\<rparr>,
               \<lparr>start_tick = 0, end_tick = 480, pitch = 60, velocity = 90, channel = 0, track_index = 0\<rparr>,
               \<lparr>start_tick = 0, end_tick = 240, pitch = 38, velocity = 80, channel = 11, track_index = 1\<rparr>],
      channel_instrument_id = [(11, 5), (0, 7)], tempo_bpm = 500,
      channel_track_name = [], muted_channels = {}\<rparr> True True True True
   = Inr ([ChannelsOver9 [11], DroppedOver9],
          \<lparr>mf_ticks_per_beat = 480,
      tracks = [[\<lparr>time = 0, kind = SetTempo 200000\<rparr>,
                 \<lparr>time = 0, kind = ProgramChange 0 7\<rparr>,
                 \<lparr>time = 0, kind = NoteOn 0 60 90\<rparr>,
                 \<lparr>time = 480, kind = NoteOff 0 60 0\<rparr>,
                 \<lparr>time = 0, kind = NoteOn 0 60 100\<rparr>,
                 \<lparr>time = 480, kind = NoteOff 0 60 0\<rparr>,
                 \<lparr>time = 0, kind = EndOfTrack\<rparr>]]\<rparr>)"
    by code_simp
  have e: "encodable
     \<lparr>ticks_per_beat = 480,
      notes = [\<lparr>start_tick = 480, end_tick = 960, pitch = 60, velocity = 100, channel = 0, track_index = 0\<rparr>,
               \<lparr>start_tick = 0, end_tick = 480, pitch = 60, velocity = 90, channel = 0, track_index = 0\<rparr>,
               \<lparr>start_tick = 0, end_tick = 240, pitch = 38, velocity = 80, channel = 11, track_index = 1\<rparr>],
      channel_instrument_id = [(11, 5), (0, 7)], tempo_bpm = 500,
      channel_track_name = [], muted_channels = {}\<rparr> True True True"
    using r save_warnings [of
        "\<lparr>ticks_per_beat = 480,
      notes = [\<lparr>start_tick = 480, end_tick = 960, pitch = 60, velocity = 100, channel = 0, track_index = 0\<rparr>,
               \<lparr>start_tick = 0, end_tick = 480, pitch = 60, velocity = 90, channel = 0, track_index = 0\<rparr>,
               \<lparr>start_tick = 0, end_tick = 240, pitch = 38, velocity = 80, channel = 11, track_index = 1\<rparr>],
      channel_instrument_id = [(11, 5), (0, 7)], tempo_bpm = 500,
      channel_track_name = [], muted_channels = {}\<rparr>" True True True True]
    by blast
  show ?thesis
    using e r by simp
qed

text \<open>
  C8 as stated fails: the encoder raises for projects that keep to the data model.
  A time base of 40000 does not fit the header (\<open>struct.error\<close>); with
  \<open>force_programs_at_start\<close> an instrument id of 200 is not a program number
  (\<open>ValueError\<close>); and without normalization a note on channel 20 is not a channel
  message (\<open>ValueError\<close>).
\<close>

theorem save_raises_counterexample:
  "save_project_to_midi
     \<lparr>ticks_per_beat = 40000,
      notes = [\<lparr>start_tick = 0, end_tick = 480, pitch = 60, velocity = 90, channel = 0, track_index = 0\<rparr>],
      channel_instrument_id = [], tempo_bpm = 120,
      channel_track_name = [], muted_channels = {}\<rparr> True True False True
   = Inl StructError \<and>
   save_project_to_midi
     \<lparr>ticks_per_beat = 480,
      notes = [\<lparr>start_tick = 0, end_tick = 480, pitch = 60, velocity = 90, channel = 0, track_index = 0\<rparr>],
      channel_instrument_id = [(0, 200)], tempo_bpm = 120,
      channel_track_name = [], muted_channels = {}\<rparr> True True True True
   = Inl ValueError \<and>
   save_project_to_midi
     \<lparr>ticks_per_beat = 480,
      notes = [\<lparr>start_tick = 0, end_tick = 480, pitch = 60, velocity = 90, channel = 20, track_index = 0\<rparr>],
      channel_instrument_id = [], tempo_bpm = 120,
      channel_track_name = [], muted_channels = {}\<rparr> False True False True
   = Inl ValueError"
  by code_simp

text \<open>
  C3. In the track the encoder writes, the absolute ticks of the messages ascend, and
  no note-on comes before a note-off of the same absolute tick.  The absolute ticks
  are the ticks of the notes plus a constant \<open>c\<close>, which is 0 when no note has a
  negative tick.  For two written notes A and B of one channel and pitch with
  \<open>end_tick A = start_tick B\<close>, the note-off of A is at an earlier position of the
  track than the note-on of B, both at that tick.
\<close>

theorem save_event_order:
  "save_project_to_midi p nz dr fp wt = Inr (ws, mf) \<Longrightarrow>
   \<exists>trk c.
     tracks mf = [trk] \<and>
     sorted (map fst (timeline trk)) \<and>
     sorted_wrt (\<lambda>x y. \<not> (fst x = fst y \<and> is_note_on (snd x) \<and> is_note_off (snd y)))
       (timeline trk) \<and>
     0 \<le> c \<and>
     ((\<forall>n\<in>set (snd (export_filter (notes p) nz dr)). 0 \<le> start_tick n \<and> 0 \<le> end_tick n)
        \<longrightarrow> c = 0) \<and>
     (\<forall>A\<in>set (snd (export_filter (notes p) nz dr)).
      \<forall>B\<in>set (snd (export_filter (notes p) nz dr)).
        channel A = channel B \<and> pitch A = pitch B \<and> end_tick A = start_tick B \<longrightarrow>
        (\<exists>i j. i < j \<and> j < length (timeline trk) \<and>
           timeline trk ! i = (end_tick A + c, NoteOff (channel A) (pitch A) 0) \<and>
           timeline trk ! j
             = (start_tick B + c, NoteOn (channel B) (pitch B) (velocity B))))"
proof -
  assume s: "save_project_to_midi p nz dr fp wt = Inr (ws, mf)"
  let ?ns = "snd (export_filter (notes p) nz dr)"
  let ?R = "\<lambda>x y :: int \<times> msg_kind. \<not> (fst x = fst y \<and> is_note_on (snd x) \<and> is_note_off (snd y))"
  obtain pre pcs where pre: "pre = [] \<or> (\<exists>t. pre = [\<lparr>time = 0, kind = SetTempo t\<rparr>])"
    and pcs: "\<forall>e\<in>set pcs. fst e = 0 \<and> \<not> is_note (snd e)"
    and trk: "tracks mf = [pre @ to_deltas 0 (sort_key event_sort_key (pcs @ note_pairs ?ns))
                           @ [\<lparr>time = 0, kind = EndOfTrack\<rparr>]]"
    using save_result [OF s] by blast
  let ?evs = "sort_key event_sort_key (pcs @ note_pairs ?ns)"
  let ?trk = "pre @ to_deltas 0 ?evs @ [\<lparr>time = 0, kind = EndOfTrack\<rparr>]"
  obtain c T where c0: "0 \<le> c" and cz: "(\<forall>e\<in>set ?evs. 0 \<le> fst e) \<longrightarrow> c = 0"
    and tl: "timeline ?trk
             = map (\<lambda>m. (0, kind m)) pre @ map (\<lambda>e. (fst e + c, snd e)) ?evs @ [(T, EndOfTrack)]"
    using timeline_shape [OF pre sorted_events_ticks, of "pcs @ note_pairs ?ns"] by blast
  have 1: "sorted (map fst (timeline ?trk))"
    by (rule timeline_ticks_sorted [OF pre])
  have 2: "sorted_wrt ?R (timeline ?trk)"
    unfolding tl using pre shifted_order [of c "pcs @ note_pairs ?ns"]
    by (auto simp: sorted_wrt_append)
  have 3: "(\<forall>n\<in>set ?ns. 0 \<le> start_tick n \<and> 0 \<le> end_tick n) \<longrightarrow> c = 0"
  proof
    assume nn: "\<forall>n\<in>set ?ns. 0 \<le> start_tick n \<and> 0 \<le> end_tick n"
    have "\<forall>e\<in>set ?evs. 0 \<le> fst e"
      using pcs nn by (auto simp: note_pairs_def)
    then show "c = 0" using cz by blast
  qed
  have 4: "\<forall>A\<in>set ?ns. \<forall>B\<in>set ?ns.
        channel A = channel B \<and> pitch A = pitch B \<and> end_tick A = start_tick B \<longrightarrow>
        (\<exists>i j. i < j \<and> j < length (timeline ?trk) \<and>
           timeline ?trk ! i = (end_tick A + c, NoteOff (channel A) (pitch A) 0) \<and>
           timeline ?trk ! j = (start_tick B + c, NoteOn (channel B) (pitch B) (velocity B)))"
  proof (intro ballI impI)
    fix A B
    assume A: "A \<in> set ?ns" and B: "B \<in> set ?ns"
      and e: "channel A = channel B \<and> pitch A = pitch B \<and> end_tick A = start_tick B"
    let ?x = "(end_tick A + c, NoteOff (channel A) (pitch A) 0)"
    let ?y = "(start_tick B + c, NoteOn (channel B) (pitch B) (velocity B))"
    have "(end_tick A, NoteOff (channel A) (pitch A) 0) \<in> set ?evs"
      using A by (auto simp: note_pairs_def)
    then have "?x \<in> set (timeline ?trk)"
      unfolding tl by force
    then obtain i where i: "i < length (timeline ?trk)" "timeline ?trk ! i = ?x"
      by (auto simp: in_set_conv_nth)
    have "(start_tick B, NoteOn (channel B) (pitch B) (velocity B)) \<in> set ?evs"
      using B by (auto simp: note_pairs_def)
    then have "?y \<in> set (timeline ?trk)"
      unfolding tl by force
    then obtain j where j: "j < length (timeline ?trk)" "timeline ?trk ! j = ?y"
      by (auto simp: in_set_conv_nth)
    have "i \<noteq> j" using i j by auto
    moreover have "\<not> j < i"
    proof
      assume "j < i"
      then have "?R (timeline ?trk ! j) (timeline ?trk ! i)"
        using 2 i(1) by (simp add: sorted_wrt_iff_nth_less)
      then show False using i j e by simp
    qed
    ultimately have "i < j" by simp
    then show "\<exists>i j. i < j \<and> j < length (timeline ?trk) \<and>
           timeline ?trk ! i = ?x \<and> timeline ?trk ! j = ?y"
      using i j by blast
  qed
  show ?thesis
    by (rule exI [of _ ?trk], rule exI [of _ c]) (intro conjI trk 1 2 c0 3 4)
qed


theorem save_event_order_witness:
  "save_project_to_midi
     \<lparr>ticks_per_beat = 480,
      notes = [\<lparr>start_tick = 480, end_tick = 960, pitch = 60, velocity = 100, channel = 0, track_index = 0\<rparr>,
               \<lparr>start_tick = 0, end_tick = 480, pitch = 60, velocity = 90, channel = 0, track_index = 0\<rparr>,
               \<lparr>start_tick = 0, end_tick = 240, pitch = 38, velocity = 80, channel = 9, track_index = 1\<rparr>],
      channel_instrument_id = [(0, 7)], tempo_bpm = 120,
      channel_track_name = [], muted_channels = {}\<rparr> True True True True
   = Inr ([], \<lparr>mf_ticks_per_beat = 480,
      tracks = [[\<lparr>time = 0, kind = SetTempo 500000\<rparr>,
                 \<lparr>time = 0, kind = ProgramChange 0 7\<rparr>,
                 \<lparr>time = 0, kind = NoteOn 0 60 90\<rparr>,
                 \<lparr>time = 0, kind = NoteOn 9 38 80\<rparr>,
                 \<lparr>time = 240, kind = NoteOff 9 38 0\<rparr>,
                 \<lparr>time = 240, kind = NoteOff 0 60 0\<rparr>,
                 \<lparr>time = 0, kind = NoteOn 0 60 100\<rparr>,
                 \<lparr>time = 480, kind = NoteOff 0 60 0\<rparr>,
                 \<lparr>time = 0, kind = EndOfTrack\<rparr>]]\<rparr>) \<and>
   timeline
     [\<lparr>time = 0, kind = SetTempo 500000\<rparr>,
      \<lparr>time = 0, kind = ProgramChange 0 7\<rparr>,
      \<lparr>time = 0, kind = NoteOn 0 60 90\<rparr>,
      \<lparr>time = 0, kind = NoteOn 9 38 80\<rparr>,
      \<lparr>time = 240, kind = NoteOff 9 38 0\<rparr>,
      \<lparr>time = 240, kind = NoteOff 0 60 0\<rparr>,
      \<lparr>time = 0, kind = NoteOn 0 60 100\<rparr>,
      \<lparr>time = 480, kind = NoteOff 0 60 0\<rparr>,
      \<lparr>time = 0, kind = EndOfTrack\<rparr>]
   = [(0, SetTempo 500000), (0, ProgramChange 0 7), (0, NoteOn 0 60 90), (0, NoteOn 9 38 80),
      (240, NoteOff 9 38 0), (480, NoteOff 0 60 0), (480, NoteOn 0 60 100), (960, NoteOff 0 60 0),
      (960, EndOfTrack)]"
proof -
  have r: "save_project_to_midi
     \<lparr>ticks_per_beat = 480,
      notes = [\<lparr>start_tick = 480, end_tick = 960, pitch = 60, velocity = 100, channel = 0, track_index = 0\<rparr>,
               \<lparr>start_tick = 0, end_tick = 480, pitch = 60, velocity = 90, channel = 0, track_index = 0\<rparr>,
               \<lparr>start_tick = 0, end_tick = 240, pitch = 38, velocity = 80, channel = 9, track_index = 1\<rparr>],
      channel_instrument_id = [(0, 7)], tempo_bpm = 120,
      channel_track_name = [], muted_channels = {}\<rparr> True True True True
   = Inr ([], \<lparr>mf_ticks_per_beat = 480,
      tracks = [[\<lparr>time = 0, kind = SetTempo 500000\<rparr>,
                 \<lparr>time = 0, kind = ProgramChange 0 7\<rparr>,
                 \<lparr>time = 0, kind = NoteOn 0 60 90\<rparr>,
                 \<lparr>time = 0, kind = NoteOn 9 38 80\<rparr>,
                 \<lparr>time = 240, kind = NoteOff 9 38 0\<rparr>,
                 \<lparr>time = 240, kind = NoteOff 0 60 0\<rparr>,
                 \<lparr>time = 0, kind = NoteOn 0 60 100\<rparr>,
                 \<lparr>time = 480, kind = NoteOff 0 60 0\<rparr>,
                 \<lparr>time = 0, kind = EndOfTrack\<rparr>]]\<rparr>)"
    by code_simp
  have t: "timeline
     [\<lparr>time = 0, kind = SetTempo 500000\<rparr>,
      \<lparr>time = 0, kind = ProgramChange 0 7\<rparr>,
      \<lparr>time = 0, kind = NoteOn 0 60 90\<rparr>,
      \<lparr>time = 0, kind = NoteOn 9 38 80\<rparr>,
      \<lparr>time = 240, kind = NoteOff 9 38 0\<rparr>,
      \<lparr>time = 240, kind = NoteOff 0 60 0\<rparr>,
      \<lparr>time = 0, kind = NoteOn 0 60 100\<rparr>,
      \<lparr>time = 480, kind = NoteOff 0 60 0\<rparr>,
      \<lparr>time = 0, kind = EndOfTrack\<rparr>]
   = [(0, SetTempo 500000), (0, ProgramChange 0 7), (0, NoteOn 0 60 90), (0, NoteOn 9 38 80),
      (240, NoteOff 9 38 0), (480, NoteOff 0 60 0), (480, NoteOn 0 60 100), (960, NoteOff 0 60 0),
      (960, EndOfTrack)]"
    by code_simp
  show ?thesis
    using r t save_event_order [OF r] by simp
qed

end
